theory Spec2Isabelle
  imports Main "HOL-Library.Sublist" "HOL-Library.AList"
begin

section \<open>Python strings\<close>

text \<open>
  A Python \<^verbatim>\<open>str\<close> is a sequence of Unicode code points; a character is modelled by
  its code point (the value of \<^verbatim>\<open>ord\<close>), so that the rupee sign of the price column
  is the single character 8377.  \<open>py\<close> reads an ASCII literal.
\<close>

type_synonym pystr = "int list"

definition py :: "string \<Rightarrow> pystr" where
  "py s = map of_char s"

text \<open>The characters \<^verbatim>\<open>str.split()\<close> and \<^verbatim>\<open>str.strip()\<close> treat as whitespace.\<close>

definition is_space :: "int \<Rightarrow> bool" where
  "is_space c =
     ((9 \<le> c \<and> c \<le> 13) \<or> (28 \<le> c \<and> c \<le> 32) \<or> c = 133 \<or> c = 160 \<or> c = 5760 \<or>
      (8192 \<le> c \<and> c \<le> 8202) \<or> c = 8232 \<or> c = 8233 \<or> c = 8239 \<or> c = 8287 \<or>
      c = 12288)"

definition non_space :: "int \<Rightarrow> bool" where
  "non_space c = (\<not> is_space c)"

text \<open>
  \<^verbatim>\<open>s.split()\<close>: skip a run of whitespace, take the token up to the next whitespace,
  and go on with what follows it.
\<close>

function split_ws :: "pystr \<Rightarrow> pystr list" where
  "split_ws s =
     (if dropWhile is_space s = [] then []
      else takeWhile non_space (dropWhile is_space s)
           # split_ws (dropWhile non_space (dropWhile is_space s)))"
  by pat_completeness auto
termination
proof (relation "measure length")
  show "wf (measure length)" by simp
next
  fix s :: pystr
  assume "dropWhile is_space s \<noteq> []"
  then obtain c cs where cc: "dropWhile is_space s = c # cs"
    by (cases "dropWhile is_space s") auto
  have "non_space c"
    using cc by (simp add: dropWhile_eq_Cons_conv non_space_def)
  hence "length (dropWhile non_space (c # cs)) \<le> length cs"
    by (simp add: length_dropWhile_le)
  also have "length cs < length (dropWhile is_space s)"
    using cc by simp
  also have "\<dots> \<le> length s"
    by (rule length_dropWhile_le)
  finally show "(dropWhile non_space (dropWhile is_space s), s) \<in> measure length"
    using cc by simp
qed

declare split_ws.simps [simp del]

text \<open>\<^verbatim>\<open>' '.join(tokens)\<close>.\<close>

fun join_space :: "pystr list \<Rightarrow> pystr" where
  "join_space [] = []"
| "join_space [t] = t"
| "join_space (t # u # ts) = t @ 32 # join_space (u # ts)"

text \<open>\<^verbatim>\<open>s.strip()\<close>.\<close>

definition strip :: "pystr \<Rightarrow> pystr" where
  "strip s = rev (dropWhile is_space (rev (dropWhile is_space s)))"

text \<open>\<^verbatim>\<open>s.split('(')[0]\<close>: the text before the first opening parenthesis (code point 40).\<close>

definition before_paren :: "pystr \<Rightarrow> pystr" where
  "before_paren s = takeWhile (\<lambda>c. c \<noteq> 40) s"

text \<open>
  \<^verbatim>\<open>s.replace(old, new)\<close>: every non-overlapping occurrence of \<open>old\<close>, from the left.
  With an empty \<open>old\<close> Python puts \<open>new\<close> before every character and at the end.
  The patterns of the rating loop are compiled as regular expressions; they hold no
  metacharacter, so \<^verbatim>\<open>re.sub\<close> replaces the same occurrences.
\<close>

function str_replace :: "'a list \<Rightarrow> 'a list \<Rightarrow> 'a list \<Rightarrow> 'a list" where
  "str_replace old new [] = (if old = [] then new else [])"
| "str_replace old new (c # cs) =
     (if old = [] then new @ c # str_replace old new cs
      else if prefix old (c # cs)
      then new @ str_replace old new (drop (length old) (c # cs))
      else c # str_replace old new cs)"
  by pat_completeness auto
termination
  by (relation "measure (\<lambda>(old, new, s). length s)") auto

text \<open>
  \<^verbatim>\<open>\D\<close> on a \<^verbatim>\<open>str\<close> pattern is every character that is not a Unicode decimal
  digit.  The ASCII digits are fixed; which characters beyond ASCII are digits is a
  table of the Python runtime, taken as the parameter \<open>nd\<close>.
\<close>

definition is_ascii_digit :: "int \<Rightarrow> bool" where
  "is_ascii_digit c = (48 \<le> c \<and> c \<le> 57)"

definition is_digit :: "(int \<Rightarrow> bool) \<Rightarrow> int \<Rightarrow> bool" where
  "is_digit nd c = (is_ascii_digit c \<or> (127 < c \<and> nd c))"

text \<open>The base-ten value of a run of ASCII digits, as \<^verbatim>\<open>int\<close> reads it.\<close>

definition digits_value :: "pystr \<Rightarrow> int" where
  "digits_value s = foldl (\<lambda>a c. 10 * a + (c - 48)) 0 s"

text \<open>
  The double nearest to a whole number \<open>n\<close> with \<open>0 \<le> n < 2^54\<close>: every whole number
  below \<open>2^53 = 9007199254740992\<close> is a double, from there on every even one, and an
  odd one goes to the neighbour whose significand is even, the multiple of four.  A
  double that is a whole number is modelled by that number.
\<close>

definition round_double :: "int \<Rightarrow> int" where
  "round_double n =
     (if n < 9007199254740992 \<or> n mod 2 = 0 then n else 4 * ((n + 1) div 4))"

text \<open>
  The double that the library's text parser (\<^verbatim>\<open>floatify\<close>, called by
  \<^verbatim>\<open>pd.to_numeric\<close> on every string cell) reads from a text made of decimal digits,
  the only texts the price statements pass to it; \<open>None\<close> is a text it does not parse.
  The parser reads bytes, so the empty text and a text with a digit beyond ASCII are not
  parsed.  It adds up the digits in double arithmetic: with at most 16 digits every step
  but the last is exact, and the result is the double nearest to the value.  What it
  returns for a longer run of digits (it rescales after the 17th digit, and fails on
  overflow) is left open as the parameter \<open>fl\<close>.
\<close>

definition floatify :: "(pystr \<Rightarrow> int option) \<Rightarrow> pystr \<Rightarrow> int option" where
  "floatify fl s =
     (if s = [] \<or> \<not> list_all is_ascii_digit s then None
      else if length s \<le> 16 then Some (round_double (digits_value s))
      else fl s)"

section \<open>Columns and frames\<close>

text \<open>
  A column is either a text (object) column, whose cells are strings or missing
  (\<open>None\<close> is NaN), or a numeric column; the CSV reader makes a column numeric when
  every cell of it is a number or missing.  The numeric columns are those the price
  statements can build: nullable 64-bit integers (\<open>None\<close> is NA), unsigned 64-bit
  integers, and doubles that are whole numbers (\<open>None\<close> is NaN).  A frame is the ordered
  list of its named columns; labels are unique, as the CSV reader makes them.
\<close>

datatype column =
    ObjectCol "pystr option list"
  | Int64Col "int option list"
  | UInt64Col "int list"
  | Float64Col "int option list"

type_synonym dataframe = "(pystr \<times> column) list"

datatype error = KeyError | AttributeError | TypeError

definition bind_err :: "error + 'a \<Rightarrow> ('a \<Rightarrow> error + 'b) \<Rightarrow> error + 'b" where
  "bind_err m f = (case m of Inl e \<Rightarrow> Inl e | Inr x \<Rightarrow> f x)"

text \<open>\<^verbatim>\<open>df[name]\<close>, the \<^verbatim>\<open>.str\<close> accessor, \<^verbatim>\<open>df[name] = col\<close>.\<close>

definition df_get :: "dataframe \<Rightarrow> pystr \<Rightarrow> error + column" where
  "df_get df name = (case map_of df name of None \<Rightarrow> Inl KeyError | Some c \<Rightarrow> Inr c)"

definition str_accessor :: "column \<Rightarrow> error + pystr option list" where
  "str_accessor col = (case col of ObjectCol xs \<Rightarrow> Inr xs | _ \<Rightarrow> Inl AttributeError)"

definition df_set :: "dataframe \<Rightarrow> pystr \<Rightarrow> column \<Rightarrow> dataframe" where
  "df_set df name col = AList.update name col df"

text \<open>\<^verbatim>\<open>df.filter(like=p).columns\<close> and \<^verbatim>\<open>df.drop(columns=names)\<close>.\<close>

definition filter_like :: "pystr \<Rightarrow> dataframe \<Rightarrow> pystr list" where
  "filter_like p df = filter (sublist p) (map fst df)"

definition drop_columns :: "pystr list \<Rightarrow> dataframe \<Rightarrow> dataframe" where
  "drop_columns names df = filter (\<lambda>nc. fst nc \<notin> set names) df"

text \<open>\<^verbatim>\<open>df.drop(name, axis=1)\<close> of one label, which must exist.\<close>

definition drop_column :: "pystr \<Rightarrow> dataframe \<Rightarrow> error + dataframe" where
  "drop_column name df =
     (if name \<in> set (map fst df) then Inr (filter (\<lambda>nc. fst nc \<noteq> name) df)
      else Inl KeyError)"

text \<open>\<^verbatim>\<open>df.head(n)\<close>.\<close>

fun head_col :: "nat \<Rightarrow> column \<Rightarrow> column" where
  "head_col n (ObjectCol xs) = ObjectCol (take n xs)"
| "head_col n (Int64Col ns) = Int64Col (take n ns)"
| "head_col n (UInt64Col ns) = UInt64Col (take n ns)"
| "head_col n (Float64Col fs) = Float64Col (take n fs)"

definition head :: "nat \<Rightarrow> dataframe \<Rightarrow> dataframe" where
  "head n df = map (\<lambda>nc. (fst nc, head_col n (snd nc))) df"

fun col_len :: "column \<Rightarrow> nat" where
  "col_len (ObjectCol xs) = length xs"
| "col_len (Int64Col ns) = length ns"
| "col_len (UInt64Col ns) = length ns"
| "col_len (Float64Col fs) = length fs"

text \<open>
  \<^verbatim>\<open>df[name] = df[name].str.method(...)\<close> for a string method \<open>f\<close>; the accessor
  leaves a missing cell missing.
\<close>

definition str_update :: "pystr \<Rightarrow> (pystr \<Rightarrow> pystr) \<Rightarrow> dataframe \<Rightarrow> error + dataframe" where
  "str_update name f df =
     bind_err (df_get df name) (\<lambda>col.
     bind_err (str_accessor col) (\<lambda>xs.
     Inr (df_set df name (ObjectCol (map (map_option f) xs)))))"

text \<open>
  \<^verbatim>\<open>series.apply(' '.join)\<close>: the plain Python function is called on every cell, and
  joining a missing cell (a float) raises \<^verbatim>\<open>TypeError\<close>.
\<close>

fun apply_join :: "pystr list option list \<Rightarrow> error + pystr option list" where
  "apply_join [] = Inr []"
| "apply_join (None # xs) = Inl TypeError"
| "apply_join (Some ts # xs) =
     bind_err (apply_join xs) (\<lambda>ys. Inr (Some (join_space ts) # ys))"

text \<open>\<^verbatim>\<open>df[name] = df[name].str.split().str[:2].apply(' '.join)\<close>.\<close>

definition two_tokens :: "pystr \<Rightarrow> pystr" where
  "two_tokens s = join_space (take 2 (split_ws s))"

definition tokens_update :: "pystr \<Rightarrow> dataframe \<Rightarrow> error + dataframe" where
  "tokens_update name df =
     bind_err (df_get df name) (\<lambda>col.
     bind_err (str_accessor col) (\<lambda>xs.
     bind_err (apply_join (map (map_option (\<lambda>s. take 2 (split_ws s))) xs)) (\<lambda>ys.
     Inr (df_set df name (ObjectCol ys)))))"

text \<open>The loop \<^verbatim>\<open>for key, value in d.items(): df[name] = df[name].str.replace(key, value)\<close>.\<close>

fun replace_loop :: "pystr \<Rightarrow> (pystr \<times> pystr) list \<Rightarrow> dataframe \<Rightarrow> error + dataframe" where
  "replace_loop name [] df = Inr df"
| "replace_loop name (kv # kvs) df =
     bind_err (str_update name (str_replace (fst kv) (snd kv)) df) (replace_loop name kvs)"

section \<open>The rules of \<open>transform_data\<close>\<close>

definition prefix_unnamed :: pystr where
  "prefix_unnamed = py ''Unnamed:''"

definition warranty_replacements :: "(pystr \<times> pystr) list" where
  "warranty_replacements =
     [(py ''1 Yr'', py ''1 Year''), (py ''1 Yera'', py ''1 Year''),
      (py ''1 Years '', py ''1 Year''), (py ''1 year'', py ''1 Year''),
      (py ''1 Years'', py ''1 Year''), (py ''One-year International'', py ''1 Year''),
      (py ''3 Years'', py ''3 Year''), (py ''2 Years'', py ''2 Year'')]"

definition rating_replacements :: "(pystr \<times> pystr) list" where
  "rating_replacements = [(py ''74,990'', py ''4.3''), (py ''57,499'', py ''4.3'')]"

text \<open>\<^verbatim>\<open>.str.split().str[0]\<close>: the first token, missing when there is none.\<close>

definition brand_name :: "pystr option \<Rightarrow> pystr option" where
  "brand_name v =
     (case v of None \<Rightarrow> None
      | Some s \<Rightarrow> (case split_ws s of [] \<Rightarrow> None | w # ws \<Rightarrow> Some w))"

text \<open>\<^verbatim>\<open>.str.replace(',', '').str.replace(r'\D', '', regex=True)\<close> on one string.\<close>

definition price_text :: "(int \<Rightarrow> bool) \<Rightarrow> pystr \<Rightarrow> pystr" where
  "price_text nd s = filter (is_digit nd) (str_replace (py '','') [] s)"

text \<open>
  \<^verbatim>\<open>pd.to_numeric(col, errors='coerce')\<close> on a text column.  A cell that is a parsed
  text is read twice: as a double by \<open>floatify\<close> and as an exact integer by
  \<^verbatim>\<open>int\<close>; a missing cell and a text that is not parsed are nulls.  The result is one
  array of 64-bit values: the exact integers as \<^verbatim>\<open>int64\<close> when there is no null and
  all fit, as \<^verbatim>\<open>uint64\<close> when there is no null and all are below \<open>2^64\<close>; in every
  other case (a null, or an integer of \<open>2^64\<close> or more) the doubles, with NaN for a null.
\<close>

definition int64_max :: int where
  "int64_max = 9223372036854775807"

definition uint64_max :: int where
  "uint64_max = 18446744073709551615"

datatype ndarray = Int64Arr "int list" | UInt64Arr "int list" | Float64Arr "int option list"

definition read_cell :: "(pystr \<Rightarrow> int option) \<Rightarrow> pystr option \<Rightarrow> (int \<times> int) option" where
  "read_cell fl v =
     (case v of None \<Rightarrow> None
      | Some s \<Rightarrow> map_option (\<lambda>f. (digits_value s, f)) (floatify fl s))"

definition to_numeric :: "(pystr \<Rightarrow> int option) \<Rightarrow> pystr option list \<Rightarrow> ndarray" where
  "to_numeric fl xs =
     (case those (map (read_cell fl) xs) of
        None \<Rightarrow> Float64Arr (map (\<lambda>v. map_option snd (read_cell fl v)) xs)
      | Some nfs \<Rightarrow>
          if list_all (\<lambda>nf. fst nf \<le> int64_max) nfs then Int64Arr (map fst nfs)
          else if list_all (\<lambda>nf. fst nf \<le> uint64_max) nfs then UInt64Arr (map fst nfs)
          else Float64Arr (map (\<lambda>v. map_option snd (read_cell fl v)) xs))"

text \<open>
  \<^verbatim>\<open>.astype('Int64', errors='ignore')\<close> on such an array.  The cast to the nullable
  integer type must lose nothing: an unsigned value of \<open>2^63\<close> or more, or a double
  outside the \<^verbatim>\<open>int64\<close> range (its cast does not compare equal to it), makes the cast
  fail, and \<^verbatim>\<open>errors='ignore'\<close> then returns the array as it was.
\<close>

definition fits_int64 :: "int option \<Rightarrow> bool" where
  "fits_int64 f = (case f of None \<Rightarrow> True | Some x \<Rightarrow> - int64_max - 1 \<le> x \<and> x \<le> int64_max)"

definition astype_Int64 :: "ndarray \<Rightarrow> column" where
  "astype_Int64 a =
     (case a of
        Int64Arr ns \<Rightarrow> Int64Col (map Some ns)
      | UInt64Arr ns \<Rightarrow>
          if list_all (\<lambda>n. n \<le> int64_max) ns then Int64Col (map Some ns) else UInt64Col ns
      | Float64Arr fs \<Rightarrow> if list_all fits_int64 fs then Int64Col fs else Float64Col fs)"

text \<open>
  \<^verbatim>\<open>pd.to_numeric(col, errors='coerce').astype('Int64', errors='ignore')\<close>;
  \<^verbatim>\<open>pd.to_numeric\<close> returns a numeric column as it is.
\<close>

definition to_numeric_col :: "(pystr \<Rightarrow> int option) \<Rightarrow> column \<Rightarrow> column" where
  "to_numeric_col fl col =
     (case col of
        ObjectCol xs \<Rightarrow> astype_Int64 (to_numeric fl xs)
      | Int64Col ns \<Rightarrow> Int64Col ns
      | UInt64Col ns \<Rightarrow> astype_Int64 (UInt64Arr ns)
      | Float64Col fs \<Rightarrow> astype_Int64 (Float64Arr fs))"

section \<open>What the rules do to one cell\<close>

text \<open>
  Every text rule maps a column cell by cell.  These are the compositions of the
  statements of \<open>transform_data\<close> on one present string; a missing cell stays missing
  except where \<open>apply_join\<close> raises.
\<close>

definition processor_rule :: "pystr \<Rightarrow> pystr" where
  "processor_rule s =
     str_replace (py ''Intel Core 7 Processor'') (py ''Intel Core i7 Processor'')
       (str_replace (py ''Intel Core 5 Processor'') (py ''Intel Core i5 Processor'')
          (strip (before_paren s)))"

definition os_rule :: "pystr \<Rightarrow> pystr" where
  "os_rule s =
     str_replace (py ''64 bit Windows 11 Home Operating System'')
                 (py ''64 bit Windows 11 Operating System'') s"

definition replace_each :: "(pystr \<times> pystr) list \<Rightarrow> pystr \<Rightarrow> pystr" where
  "replace_each kvs s = foldl (\<lambda>a kv. str_replace (fst kv) (snd kv) a) s kvs"

definition warranty_rule :: "pystr \<Rightarrow> pystr" where
  "warranty_rule s = replace_each warranty_replacements (two_tokens s)"

definition rating_rule :: "pystr \<Rightarrow> pystr" where
  "rating_rule s = replace_each rating_replacements s"

text \<open>
  The price statements map the column as a whole: what a cell becomes depends on the
  other cells.  \<open>price_column\<close> is the column they build.
\<close>

definition price_column ::
  "(int \<Rightarrow> bool) \<Rightarrow> (pystr \<Rightarrow> int option) \<Rightarrow> pystr option list \<Rightarrow> column" where
  "price_column nd fl prs = to_numeric_col fl (ObjectCol (map (map_option (price_text nd)) prs))"

text \<open>
  The integer a price is meant to become, to compare the column with: the base-ten value
  of the digits that are left, and missing when the cell is missing, nothing is left, or
  a digit beyond ASCII is.
\<close>

definition exact_price :: "(int \<Rightarrow> bool) \<Rightarrow> pystr option \<Rightarrow> int option" where
  "exact_price nd v =
     (case v of None \<Rightarrow> None
      | Some s \<Rightarrow>
          if price_text nd s \<noteq> [] \<and> list_all is_ascii_digit (price_text nd s)
          then Some (digits_value (price_text nd s)) else None)"

text \<open>
  A price that a double holds exactly whatever the parser does with long texts: at most 16
  digits are left, and their value is below \<open>2^53\<close>.
\<close>

definition plain_price :: "(int \<Rightarrow> bool) \<Rightarrow> pystr option \<Rightarrow> bool" where
  "plain_price nd v =
     (case v of None \<Rightarrow> True
      | Some s \<Rightarrow> length (price_text nd s) \<le> 16
                 \<and> digits_value (price_text nd s) < 9007199254740992)"

text \<open>
  The double a price is read as; \<open>None\<close> is NaN, for a missing cell and for a text that
  is not parsed.  \<open>parsed_price\<close>: the price is read as a number, and its integer fits
  \<^verbatim>\<open>int64\<close>.
\<close>

definition float_price ::
  "(int \<Rightarrow> bool) \<Rightarrow> (pystr \<Rightarrow> int option) \<Rightarrow> pystr option \<Rightarrow> int option" where
  "float_price nd fl v = (case v of None \<Rightarrow> None | Some s \<Rightarrow> floatify fl (price_text nd s))"


section \<open>The statements of \<open>transform_data\<close>, rule by rule\<close>

text \<open>Drop unnecessary columns.\<close>

definition drop_unnamed :: "dataframe \<Rightarrow> dataframe" where
  "drop_unnamed raw_data = drop_columns (filter_like prefix_unnamed raw_data) raw_data"

text \<open>Extract the brand name from the title, then drop the title.\<close>

definition extract_brand :: "dataframe \<Rightarrow> error + dataframe" where
  "extract_brand df =
     bind_err (df_get df (py ''Title'')) (\<lambda>title.
     bind_err (str_accessor title) (\<lambda>ts.
     drop_column (py ''Title'')
       (df_set df (py ''Brand_Name'') (ObjectCol (map brand_name ts)))))"

text \<open>The three statements on the processor column.\<close>

definition transform_processor :: "dataframe \<Rightarrow> error + dataframe" where
  "transform_processor df =
     bind_err (str_update (py ''Processor'') (\<lambda>s. strip (before_paren s)) df) (\<lambda>d1.
     bind_err (str_update (py ''Processor'')
        (str_replace (py ''Intel Core 5 Processor'') (py ''Intel Core i5 Processor'')) d1) (\<lambda>d2.
     str_update (py ''Processor'')
        (str_replace (py ''Intel Core 7 Processor'') (py ''Intel Core i7 Processor'')) d2))"

definition transform_ram :: "dataframe \<Rightarrow> error + dataframe" where
  "transform_ram df = tokens_update (py ''RAM'') df"

definition transform_os :: "dataframe \<Rightarrow> error + dataframe" where
  "transform_os df =
     str_update (py ''Operating_System'')
       (str_replace (py ''64 bit Windows 11 Home Operating System'')
                    (py ''64 bit Windows 11 Operating System'')) df"

definition transform_warranty :: "dataframe \<Rightarrow> error + dataframe" where
  "transform_warranty df =
     bind_err (tokens_update (py ''Warranty'') df)
       (replace_loop (py ''Warranty'') warranty_replacements)"

definition transform_prices ::
  "(int \<Rightarrow> bool) \<Rightarrow> (pystr \<Rightarrow> int option) \<Rightarrow> dataframe \<Rightarrow> error + dataframe" where
  "transform_prices nd fl df =
     bind_err (str_update (py ''Prices'') (price_text nd) df) (\<lambda>d1.
     bind_err (df_get d1 (py ''Prices'')) (\<lambda>prices.
     Inr (df_set d1 (py ''Prices'') (to_numeric_col fl prices))))"

definition transform_rating :: "dataframe \<Rightarrow> error + dataframe" where
  "transform_rating df = replace_loop (py ''Rating'') rating_replacements df"

text \<open>The frame after every rule, as it is saved to \<^verbatim>\<open>transformed_data.csv\<close>.\<close>

definition transform_full ::
  "(int \<Rightarrow> bool) \<Rightarrow> (pystr \<Rightarrow> int option) \<Rightarrow> dataframe \<Rightarrow> error + dataframe" where
  "transform_full nd fl raw_data =
     bind_err (extract_brand (drop_unnamed raw_data)) (\<lambda>d1.
     bind_err (transform_processor d1) (\<lambda>d2.
     bind_err (transform_ram d2) (\<lambda>d3.
     bind_err (transform_os d3) (\<lambda>d4.
     bind_err (transform_warranty d4) (\<lambda>d5.
     bind_err (transform_prices nd fl d5) (\<lambda>d6.
     transform_rating d6))))))"

text \<open>\<^verbatim>\<open>transform_data\<close> returns the first 50 rows of that frame.\<close>

definition transform_data ::
  "(int \<Rightarrow> bool) \<Rightarrow> (pystr \<Rightarrow> int option) \<Rightarrow> dataframe \<Rightarrow> error + dataframe" where
  "transform_data nd fl raw_data =
     bind_err (transform_full nd fl raw_data) (\<lambda>d. Inr (head 50 d))"

section \<open>An example input\<close>

text \<open>
  A raw frame of \<open>n\<close> equal rows (title Dell Inspiron 15, processor Intel Core 7
  Processor (12th Gen), RAM 8 GB DDR4 3200MHz, warranty 1 Years Warranty, price
  45,990 rupees, rating 45,990), preceded by text columns with the given extra labels,
  and the frame the rules are expected to leave of it.
\<close>

definition example_frame :: "pystr list \<Rightarrow> nat \<Rightarrow> dataframe" where
  "example_frame extra n =
     map (\<lambda>name. (name, ObjectCol (replicate n (Some (py ''0''))))) extra @
     [(py ''Title'', ObjectCol (replicate n (Some (py ''Dell Inspiron 15'')))),
      (py ''Processor'', ObjectCol (replicate n (Some (py ''Intel Core 7 Processor (12th Gen)'')))),
      (py ''RAM'', ObjectCol (replicate n (Some (py ''8 GB DDR4 3200MHz'')))),
      (py ''Operating_System'',
         ObjectCol (replicate n (Some (py ''64 bit Windows 11 Home Operating System'')))),
      (py ''Warranty'', ObjectCol (replicate n (Some (py ''1 Years Warranty'')))),
      (py ''Prices'', ObjectCol (replicate n (Some (8377 # py ''45,990'')))),
      (py ''Rating'', ObjectCol (replicate n (Some (py ''45,990''))))]"

definition example_result :: "nat \<Rightarrow> dataframe" where
  "example_result n =
     [(py ''Processor'', ObjectCol (replicate n (Some (py ''Intel Core i7 Processor'')))),
      (py ''RAM'', ObjectCol (replicate n (Some (py ''8 GB'')))),
      (py ''Operating_System'',
         ObjectCol (replicate n (Some (py ''64 bit Windows 11 Operating System'')))),
      (py ''Warranty'', ObjectCol (replicate n (Some (py ''1 Year'')))),
      (py ''Prices'', Int64Col (replicate n (Some 45990))),
      (py ''Rating'', ObjectCol (replicate n (Some (py ''45,990'')))),
      (py ''Brand_Name'', ObjectCol (replicate n (Some (py ''Dell''))))]"

section \<open>Texts that cannot overlap\<close>

text \<open>
  \<open>apart x q\<close>: no end of \<open>x\<close> is a start of \<open>q\<close> or holds \<open>q\<close> from its start, and
  no end of \<open>q\<close> is a start of \<open>x\<close> or holds \<open>x\<close> from its start.  Then an occurrence of
  \<open>x\<close> in a text cannot share a character with an inserted \<open>q\<close>.
\<close>

definition apart :: "'a list \<Rightarrow> 'a list \<Rightarrow> bool" where
  "apart x q =
     (list_all (\<lambda>e. e = [] \<or> \<not> (prefix e q \<or> prefix q e)) (suffixes x) \<and>
      list_all (\<lambda>e. e = [] \<or> \<not> (prefix e x \<or> prefix x e)) (suffixes q))"

text \<open>
  The texts the two-token statement leaves: no whitespace but the joining space, at most
  one of it, and none at either end.
\<close>

definition two_token_text :: "pystr \<Rightarrow> bool" where
  "two_token_text t =
     (list_all (\<lambda>c. non_space c \<or> c = 32) t \<and>
      length (filter (\<lambda>c. c = 32) t) \<le> 1 \<and>
      (t = [] \<or> (non_space (hd t) \<and> non_space (last t))))"

section \<open>When a statement succeeds, and what it leaves\<close>

lemma py_eq_iff [simp]: "py a = py b \<longleftrightarrow> a = b"
proof -
  have "inj (of_char :: char \<Rightarrow> int)"
    by (rule injI) simp
  then show ?thesis
    unfolding py_def by (simp add: inj_map_eq_map)
qed

lemma bind_err_Inr: "bind_err m f = Inr y \<longleftrightarrow> (\<exists>x. m = Inr x \<and> f x = Inr y)"
  by (cases m) (simp_all add: bind_err_def)

lemma df_get_Inr: "df_get df name = Inr c \<longleftrightarrow> map_of df name = Some c"
  by (simp add: df_get_def split: option.splits)

lemma str_accessor_Inr: "str_accessor col = Inr xs \<longleftrightarrow> col = ObjectCol xs"
  by (cases col) (simp_all add: str_accessor_def)

lemma str_update_Inr:
  "str_update name f df = Inr df' \<longleftrightarrow>
     (\<exists>xs. map_of df name = Some (ObjectCol xs)
        \<and> df' = AList.update name (ObjectCol (map (map_option f) xs)) df)"
  by (auto simp: str_update_def bind_err_Inr df_get_Inr str_accessor_Inr df_set_def)

lemma apply_join_Inr:
  "apply_join xs = Inr ys \<longleftrightarrow> None \<notin> set xs \<and> ys = map (map_option join_space) xs"
  by (induction xs arbitrary: ys rule: apply_join.induct) (auto simp: bind_err_Inr)

lemma apply_join_Inl: "None \<in> set xs \<Longrightarrow> apply_join xs = Inl TypeError"
  by (induction xs rule: apply_join.induct) (auto simp: bind_err_def)

lemma two_tokens_fun: "(\<lambda>x. join_space (take 2 (split_ws x))) = two_tokens"
  by (rule ext) (simp add: two_tokens_def)

lemma tokens_update_Inr:
  "tokens_update name df = Inr df' \<longleftrightarrow>
     (\<exists>xs. map_of df name = Some (ObjectCol xs) \<and> None \<notin> set xs
        \<and> df' = AList.update name (ObjectCol (map (map_option two_tokens) xs)) df)"
  by (auto simp: tokens_update_def bind_err_Inr df_get_Inr str_accessor_Inr df_set_def
      apply_join_Inr two_tokens_fun option.map_comp comp_def)

lemma replace_each_Cons:
  "replace_each (kv # kvs) s = replace_each kvs (str_replace (fst kv) (snd kv) s)"
  by (simp add: replace_each_def)

lemma replace_loop_Inr:
  "kvs \<noteq> [] \<Longrightarrow> replace_loop name kvs df = Inr df' \<longleftrightarrow>
     (\<exists>xs. map_of df name = Some (ObjectCol xs)
        \<and> df' = AList.update name (ObjectCol (map (map_option (replace_each kvs)) xs)) df)"
proof (induction kvs arbitrary: df)
  case Nil
  then show ?case by simp
next
  case (Cons kv kvs)
  show ?case
  proof (cases "kvs = []")
    case True
    then show ?thesis
      by (auto simp: bind_err_Inr str_update_Inr replace_each_def)
  next
    case False
    have "(\<lambda>x. replace_each kvs (str_replace (fst kv) (snd kv) x)) = replace_each (kv # kvs)"
      by (rule ext) (simp add: replace_each_Cons)
    then show ?thesis
      using Cons.IH [OF False]
      by (auto simp: bind_err_Inr str_update_Inr AList.update_conv' option.map_comp comp_def)
  qed
qed


lemma map_of_filter_neq:
  "map_of (filter (\<lambda>nc. fst nc \<noteq> k0) al) k = (if k \<noteq> k0 then map_of al k else None)"
  by (induction al) auto

lemma warranty_loop_Inr:
  "replace_loop name warranty_replacements df = Inr df' \<longleftrightarrow>
     (\<exists>xs. map_of df name = Some (ObjectCol xs)
        \<and> df' = AList.update name
              (ObjectCol (map (map_option (replace_each warranty_replacements)) xs)) df)"
  by (rule replace_loop_Inr) (simp add: warranty_replacements_def)

lemma rating_loop_Inr:
  "replace_loop name rating_replacements df = Inr df' \<longleftrightarrow>
     (\<exists>xs. map_of df name = Some (ObjectCol xs)
        \<and> df' = AList.update name
              (ObjectCol (map (map_option (replace_each rating_replacements)) xs)) df)"
  by (rule replace_loop_Inr) (simp add: rating_replacements_def)

lemma drop_column_Inr:
  "drop_column name df = Inr df' \<longleftrightarrow>
     name \<in> fst ` set df \<and> df' = filter (\<lambda>nc. fst nc \<noteq> name) df"
  by (auto simp: drop_column_def)

lemma map_of_Some_in_keys: "map_of al k = Some v \<Longrightarrow> k \<in> fst ` set al"
  by (metis domI dom_map_of_conv_image_fst)


lemma extract_brand_Inr:
  "extract_brand df = Inr df' \<longleftrightarrow>
     (\<exists>ts. map_of df (py ''Title'') = Some (ObjectCol ts)
        \<and> df' = filter (\<lambda>nc. fst nc \<noteq> py ''Title'')
              (AList.update (py ''Brand_Name'') (ObjectCol (map brand_name ts)) df))"
  by (auto simp: extract_brand_def bind_err_Inr df_get_Inr str_accessor_Inr df_set_def
      drop_column_Inr AList.dom_update dest: map_of_Some_in_keys)

lemma processor_rule_fun:
  "(\<lambda>x. str_replace (py ''Intel Core 7 Processor'') (py ''Intel Core i7 Processor'')
       (str_replace (py ''Intel Core 5 Processor'') (py ''Intel Core i5 Processor'')
          (strip (before_paren x)))) = processor_rule"
  by (rule ext) (simp add: processor_rule_def)

lemma transform_processor_Inr:
  "transform_processor df = Inr df' \<longleftrightarrow>
     (\<exists>ps. map_of df (py ''Processor'') = Some (ObjectCol ps)
        \<and> df' = AList.update (py ''Processor'')
              (ObjectCol (map (map_option processor_rule) ps)) df)"
  by (auto simp: transform_processor_def bind_err_Inr str_update_Inr AList.update_conv'
      option.map_comp comp_def processor_rule_fun)

lemma transform_ram_Inr:
  "transform_ram df = Inr df' \<longleftrightarrow>
     (\<exists>rs. map_of df (py ''RAM'') = Some (ObjectCol rs) \<and> None \<notin> set rs
        \<and> df' = AList.update (py ''RAM'') (ObjectCol (map (map_option two_tokens) rs)) df)"
  by (simp add: transform_ram_def tokens_update_Inr)

lemma os_rule_fun:
  "str_replace (py ''64 bit Windows 11 Home Operating System'')
     (py ''64 bit Windows 11 Operating System'') = os_rule"
  by (rule ext) (simp add: os_rule_def)

lemma transform_os_Inr:
  "transform_os df = Inr df' \<longleftrightarrow>
     (\<exists>os. map_of df (py ''Operating_System'') = Some (ObjectCol os)
        \<and> df' = AList.update (py ''Operating_System'')
              (ObjectCol (map (map_option os_rule) os)) df)"
  by (simp add: transform_os_def str_update_Inr os_rule_fun)

lemma warranty_rule_fun:
  "(\<lambda>x. replace_each warranty_replacements (two_tokens x)) = warranty_rule"
  by (rule ext) (simp add: warranty_rule_def)

lemma transform_warranty_Inr:
  "transform_warranty df = Inr df' \<longleftrightarrow>
     (\<exists>ws. map_of df (py ''Warranty'') = Some (ObjectCol ws) \<and> None \<notin> set ws
        \<and> df' = AList.update (py ''Warranty'')
              (ObjectCol (map (map_option warranty_rule) ws)) df)"
  by (auto simp: transform_warranty_def bind_err_Inr tokens_update_Inr warranty_loop_Inr
      AList.update_conv' option.map_comp comp_def warranty_rule_fun)

lemma those_length: "those ps = Some qs \<Longrightarrow> length qs = length ps"
  by (induction ps arbitrary: qs) (auto split: option.splits)

lemma those_map_Some: "those ps = Some qs \<Longrightarrow> ps = map Some qs"
  by (induction ps arbitrary: qs) (auto split: option.splits)


lemma col_len_astype [simp]:
  "col_len (astype_Int64 (Int64Arr ns)) = length ns"
  "col_len (astype_Int64 (UInt64Arr ns)) = length ns"
  "col_len (astype_Int64 (Float64Arr fs)) = length fs"
  by (simp_all add: astype_Int64_def)

lemma col_len_to_numeric_col [simp]: "col_len (to_numeric_col fl c) = col_len c"
proof (cases c)
  case (ObjectCol xs)
  show ?thesis
    unfolding ObjectCol to_numeric_col_def to_numeric_def
    by (auto split: option.splits dest: those_length)
qed (simp_all add: to_numeric_col_def)

lemma col_len_price_column [simp]: "col_len (price_column nd fl prs) = length prs"
  by (simp add: price_column_def)

lemma astype_not_object: "astype_Int64 a \<noteq> ObjectCol xs"
  by (cases a) (simp_all add: astype_Int64_def)

lemma price_column_not_object: "price_column nd fl prs \<noteq> ObjectCol xs"
  by (simp add: price_column_def to_numeric_col_def astype_not_object)

lemma str_accessor_price_column: "str_accessor (price_column nd fl prs) = Inl AttributeError"
  using price_column_not_object [of nd fl prs]
  by (cases "price_column nd fl prs") (auto simp: str_accessor_def)

lemma transform_prices_Inr:
  "transform_prices nd fl df = Inr df' \<longleftrightarrow>
     (\<exists>prs. map_of df (py ''Prices'') = Some (ObjectCol prs)
        \<and> df' = AList.update (py ''Prices'') (price_column nd fl prs) df)"
  by (auto simp: transform_prices_def bind_err_Inr str_update_Inr df_get_Inr str_accessor_Inr
      df_set_def AList.update_conv' price_column_def)

lemma rating_rule_fun: "replace_each rating_replacements = rating_rule"
  by (rule ext) (simp add: rating_rule_def)

lemma transform_rating_Inr:
  "transform_rating df = Inr df' \<longleftrightarrow>
     (\<exists>rts. map_of df (py ''Rating'') = Some (ObjectCol rts)
        \<and> df' = AList.update (py ''Rating'') (ObjectCol (map (map_option rating_rule) rts)) df)"
  by (simp add: transform_rating_def rating_loop_Inr rating_rule_fun)

lemmas stage_Inr =
  extract_brand_Inr transform_processor_Inr transform_ram_Inr transform_os_Inr
  transform_warranty_Inr transform_prices_Inr transform_rating_Inr

lemma transform_full_Inr:
  "transform_full nd fl df = Inr out \<longleftrightarrow>
   (\<exists>ts ps rs os ws prs rts.
     map_of (drop_unnamed df) (py ''Title'') = Some (ObjectCol ts)
   \<and> map_of (drop_unnamed df) (py ''Processor'') = Some (ObjectCol ps)
   \<and> map_of (drop_unnamed df) (py ''RAM'') = Some (ObjectCol rs)
   \<and> map_of (drop_unnamed df) (py ''Operating_System'') = Some (ObjectCol os)
   \<and> map_of (drop_unnamed df) (py ''Warranty'') = Some (ObjectCol ws)
   \<and> map_of (drop_unnamed df) (py ''Prices'') = Some (ObjectCol prs)
   \<and> map_of (drop_unnamed df) (py ''Rating'') = Some (ObjectCol rts)
   \<and> None \<notin> set rs \<and> None \<notin> set ws
   \<and> out =
       AList.update (py ''Rating'') (ObjectCol (map (map_option rating_rule) rts))
      (AList.update (py ''Prices'') (price_column nd fl prs)
      (AList.update (py ''Warranty'') (ObjectCol (map (map_option warranty_rule) ws))
      (AList.update (py ''Operating_System'') (ObjectCol (map (map_option os_rule) os))
      (AList.update (py ''RAM'') (ObjectCol (map (map_option two_tokens) rs))
      (AList.update (py ''Processor'') (ObjectCol (map (map_option processor_rule) ps))
      (filter (\<lambda>nc. fst nc \<noteq> py ''Title'')
      (AList.update (py ''Brand_Name'') (ObjectCol (map brand_name ts))
         (drop_unnamed df)))))))))"
  unfolding transform_full_def
  by (auto simp: bind_err_Inr stage_Inr AList.update_conv' map_of_filter_neq)

section \<open>The frame after all rules\<close>

lemma drop_unnamed_filter:
  "drop_unnamed df = filter (\<lambda>nc. \<not> sublist prefix_unnamed (fst nc)) df"
  unfolding drop_unnamed_def drop_columns_def filter_like_def
  by (rule filter_cong) auto

lemma map_of_drop_unnamed:
  "map_of (drop_unnamed df) k = (if sublist prefix_unnamed k then None else map_of df k)"
  unfolding drop_unnamed_filter by (induction df) auto

lemma names_drop_unnamed:
  "map fst (drop_unnamed df) = filter (\<lambda>n. \<not> sublist prefix_unnamed n) (map fst df)"
  unfolding drop_unnamed_filter by (induction df) auto

lemma set_drop_unnamed: "set (drop_unnamed df) \<subseteq> set df"
  unfolding drop_unnamed_filter by auto

lemma fixed_names_kept:
  "\<not> sublist prefix_unnamed (py ''Title'')"
  "\<not> sublist prefix_unnamed (py ''Brand_Name'')"
  "\<not> sublist prefix_unnamed (py ''Processor'')"
  "\<not> sublist prefix_unnamed (py ''RAM'')"
  "\<not> sublist prefix_unnamed (py ''Operating_System'')"
  "\<not> sublist prefix_unnamed (py ''Warranty'')"
  "\<not> sublist prefix_unnamed (py ''Prices'')"
  "\<not> sublist prefix_unnamed (py ''Rating'')"
  by code_simp+

lemma update_keys_present:
  "k \<in> fst ` set al \<Longrightarrow> map fst (AList.update k v al) = map fst al"
  by (simp add: AList.update_keys)

lemma keys_update_same: "fst ` set (AList.update k v al) = insert k (fst ` set al)"
  by (simp add: AList.dom_update)

lemma set_update_subset: "set (AList.update k v al) \<subseteq> insert (k, v) (set al)"
  by (induction al) auto

lemma names_filter_neq:
  "map fst (filter (\<lambda>nc. fst nc \<noteq> k) al) = filter (\<lambda>n. n \<noteq> k) (map fst al)"
  by (induction al) auto

lemma transform_full_names:
  assumes "transform_full nd fl df = Inr out"
  shows "map fst out = filter (\<lambda>n. n \<noteq> py ''Title'')
           (map fst (AList.update (py ''Brand_Name'') (ObjectCol []) (drop_unnamed df)))"
proof -
  from assms obtain ts ps rs os ws prs rts where
    c: "map_of (drop_unnamed df) (py ''Title'') = Some (ObjectCol ts)"
       "map_of (drop_unnamed df) (py ''Processor'') = Some (ObjectCol ps)"
       "map_of (drop_unnamed df) (py ''RAM'') = Some (ObjectCol rs)"
       "map_of (drop_unnamed df) (py ''Operating_System'') = Some (ObjectCol os)"
       "map_of (drop_unnamed df) (py ''Warranty'') = Some (ObjectCol ws)"
       "map_of (drop_unnamed df) (py ''Prices'') = Some (ObjectCol prs)"
       "map_of (drop_unnamed df) (py ''Rating'') = Some (ObjectCol rts)"
    and out: "out =
       AList.update (py ''Rating'') (ObjectCol (map (map_option rating_rule) rts))
      (AList.update (py ''Prices'') (price_column nd fl prs)
      (AList.update (py ''Warranty'') (ObjectCol (map (map_option warranty_rule) ws))
      (AList.update (py ''Operating_System'') (ObjectCol (map (map_option os_rule) os))
      (AList.update (py ''RAM'') (ObjectCol (map (map_option two_tokens) rs))
      (AList.update (py ''Processor'') (ObjectCol (map (map_option processor_rule) ps))
      (filter (\<lambda>nc. fst nc \<noteq> py ''Title'')
      (AList.update (py ''Brand_Name'') (ObjectCol (map brand_name ts))
         (drop_unnamed df))))))))"
    unfolding transform_full_Inr by blast
  define base where "base = filter (\<lambda>nc. fst nc \<noteq> py ''Title'')
      (AList.update (py ''Brand_Name'') (ObjectCol (map brand_name ts)) (drop_unnamed df))"
  have k: "py ''Processor'' \<in> fst ` set base" "py ''RAM'' \<in> fst ` set base"
    "py ''Operating_System'' \<in> fst ` set base" "py ''Warranty'' \<in> fst ` set base"
    "py ''Prices'' \<in> fst ` set base" "py ''Rating'' \<in> fst ` set base"
    unfolding base_def
    by (rule map_of_Some_in_keys, simp add: map_of_filter_neq AList.update_conv' c)+
  have "map fst out = map fst base"
    unfolding out base_def [symmetric]
    by (simp add: update_keys_present keys_update_same k)
  also have "\<dots> = filter (\<lambda>n. n \<noteq> py ''Title'')
           (map fst (AList.update (py ''Brand_Name'') (ObjectCol []) (drop_unnamed df)))"
    unfolding base_def by (simp add: names_filter_neq AList.update_keys)
  finally show ?thesis .
qed


lemma transform_full_cols:
  assumes "transform_full nd fl df = Inr out"
  shows "\<exists>ts ps rs os ws prs rts.
     map_of df (py ''Title'') = Some (ObjectCol ts)
   \<and> map_of df (py ''Processor'') = Some (ObjectCol ps)
   \<and> map_of df (py ''RAM'') = Some (ObjectCol rs)
   \<and> map_of df (py ''Operating_System'') = Some (ObjectCol os)
   \<and> map_of df (py ''Warranty'') = Some (ObjectCol ws)
   \<and> map_of df (py ''Prices'') = Some (ObjectCol prs)
   \<and> map_of df (py ''Rating'') = Some (ObjectCol rts)
   \<and> None \<notin> set rs \<and> None \<notin> set ws
   \<and> map_of out (py ''Title'') = None
   \<and> map_of out (py ''Brand_Name'') = Some (ObjectCol (map brand_name ts))
   \<and> map_of out (py ''Processor'') = Some (ObjectCol (map (map_option processor_rule) ps))
   \<and> map_of out (py ''RAM'') = Some (ObjectCol (map (map_option two_tokens) rs))
   \<and> map_of out (py ''Operating_System'') = Some (ObjectCol (map (map_option os_rule) os))
   \<and> map_of out (py ''Warranty'') = Some (ObjectCol (map (map_option warranty_rule) ws))
   \<and> map_of out (py ''Prices'') = Some (price_column nd fl prs)
   \<and> map_of out (py ''Rating'') = Some (ObjectCol (map (map_option rating_rule) rts))"
  using assms unfolding transform_full_Inr
  by (auto simp: AList.update_conv' map_of_filter_neq map_of_drop_unnamed fixed_names_kept)

lemma update_all_cols:
  "\<forall>nc\<in>set al. P (snd nc) \<Longrightarrow> P v \<Longrightarrow> \<forall>nc\<in>set (AList.update k v al). P (snd nc)"
  using set_update_subset [of k v al] by auto

lemma transform_full_rows:
  assumes "transform_full nd fl df = Inr out" and "\<forall>nc\<in>set df. col_len (snd nc) = n"
  shows "\<forall>nc\<in>set out. col_len (snd nc) = n"
proof -
  from assms(1) obtain ts ps rs os ws prs rts where
    c: "map_of (drop_unnamed df) (py ''Title'') = Some (ObjectCol ts)"
       "map_of (drop_unnamed df) (py ''Processor'') = Some (ObjectCol ps)"
       "map_of (drop_unnamed df) (py ''RAM'') = Some (ObjectCol rs)"
       "map_of (drop_unnamed df) (py ''Operating_System'') = Some (ObjectCol os)"
       "map_of (drop_unnamed df) (py ''Warranty'') = Some (ObjectCol ws)"
       "map_of (drop_unnamed df) (py ''Prices'') = Some (ObjectCol prs)"
       "map_of (drop_unnamed df) (py ''Rating'') = Some (ObjectCol rts)"
    and out: "out =
       AList.update (py ''Rating'') (ObjectCol (map (map_option rating_rule) rts))
      (AList.update (py ''Prices'') (price_column nd fl prs)
      (AList.update (py ''Warranty'') (ObjectCol (map (map_option warranty_rule) ws))
      (AList.update (py ''Operating_System'') (ObjectCol (map (map_option os_rule) os))
      (AList.update (py ''RAM'') (ObjectCol (map (map_option two_tokens) rs))
      (AList.update (py ''Processor'') (ObjectCol (map (map_option processor_rule) ps))
      (filter (\<lambda>nc. fst nc \<noteq> py ''Title'')
      (AList.update (py ''Brand_Name'') (ObjectCol (map brand_name ts))
         (drop_unnamed df))))))))"
    unfolding transform_full_Inr by blast
  have len: "col_len c = n" if "map_of (drop_unnamed df) k = Some c" for k c
  proof -
    from that have "(k, c) \<in> set (drop_unnamed df)"
      by (rule map_of_SomeD)
    with set_drop_unnamed [of df] have "(k, c) \<in> set df"
      by (rule subsetD)
    with assms(2) have "col_len (snd (k, c)) = n"
      by (rule bspec)
    then show ?thesis
      by simp
  qed
  have l: "length ts = n" "length ps = n" "length rs = n" "length os = n" "length ws = n"
    "length prs = n" "length rts = n"
    using c [THEN len] by simp_all
  have d: "\<forall>nc\<in>set (drop_unnamed df). col_len (snd nc) = n"
    using set_drop_unnamed [of df] assms(2) by auto
  have "\<forall>nc\<in>set (AList.update (py ''Brand_Name'') (ObjectCol (map brand_name ts))
         (drop_unnamed df)). col_len (snd nc) = n"
    by (rule update_all_cols [OF d]) (simp add: l)
  then have b: "\<forall>nc\<in>set (filter (\<lambda>nc. fst nc \<noteq> py ''Title'')
      (AList.update (py ''Brand_Name'') (ObjectCol (map brand_name ts))
         (drop_unnamed df))). col_len (snd nc) = n"
    by simp
  show ?thesis
    unfolding out
    by (intro update_all_cols b) (simp_all add: l)
qed

lemma map_of_head: "map_of (head n df) k = map_option (head_col n) (map_of df k)"
  unfolding head_def by (induction df) auto

lemma names_head: "map fst (head n df) = map fst df"
  by (simp add: head_def comp_def)

lemma col_len_head: "col_len (head_col n c) = min n (col_len c)"
  by (cases c) (simp_all add: min.commute)

lemma transform_data_Inr:
  "transform_data nd fl df = Inr out \<longleftrightarrow>
     (\<exists>full. transform_full nd fl df = Inr full \<and> out = head 50 full)"
  by (auto simp: transform_data_def bind_err_Inr)

lemma split_ws_Nil_iff: "split_ws s = [] \<longleftrightarrow> list_all is_space s"
  by (subst split_ws.simps) (simp add: list_all_iff)

lemma split_ws_first:
  assumes "\<not> list_all is_space s"
  shows "\<exists>pre w post. split_ws s = w # split_ws post \<and> s = pre @ w @ post
     \<and> list_all is_space pre \<and> w \<noteq> [] \<and> list_all non_space w
     \<and> (post = [] \<or> is_space (hd post))"
proof -
  define t where "t = dropWhile is_space s"
  define w where "w = takeWhile non_space t"
  define post where "post = dropWhile non_space t"
  have tne: "t \<noteq> []"
    using assms by (simp add: t_def list_all_iff)
  then have "\<not> is_space (hd t)"
    unfolding t_def by (rule hd_dropWhile)
  then have wne: "w \<noteq> []"
    using tne by (simp add: w_def takeWhile_eq_Nil_iff non_space_def)
  have "split_ws s = w # split_ws post"
    using tne by (subst split_ws.simps) (simp add: t_def w_def post_def)
  moreover have "s = takeWhile is_space s @ w @ post"
    by (simp add: t_def w_def post_def)
  moreover have "list_all is_space (takeWhile is_space s)"
    by (simp add: list_all_iff) (meson set_takeWhileD)
  moreover have "list_all non_space w"
    unfolding w_def by (simp add: list_all_iff) (meson set_takeWhileD)
  moreover have "post = [] \<or> is_space (hd post)"
    using hd_dropWhile [of non_space t] by (auto simp: post_def non_space_def)
  ultimately show ?thesis
    using wne by blast
qed

section \<open>Price normalization\<close>

lemma str_replace_single_empty:
  "str_replace [c] [] s = filter (\<lambda>x. x \<noteq> c) s"
  by (induction s) auto

lemma price_text_filter:
  "price_text nd s = filter (is_digit nd) (filter (\<lambda>c. c \<noteq> 44) s)"
  by (simp add: price_text_def py_def str_replace_single_empty)

lemma digits_value_nonneg_aux:
  "0 \<le> a \<Longrightarrow> list_all is_ascii_digit s \<Longrightarrow> 0 \<le> foldl (\<lambda>a c. 10 * a + (c - 48)) a s"
  by (induction s arbitrary: a) (auto simp: is_ascii_digit_def)

lemma digits_value_nonneg: "list_all is_ascii_digit s \<Longrightarrow> 0 \<le> digits_value s"
  by (simp add: digits_value_def digits_value_nonneg_aux)

lemma exact_price_nonneg: "exact_price nd v = Some n \<Longrightarrow> 0 \<le> n"
  by (cases v) (auto simp: exact_price_def digits_value_nonneg split: if_splits)

lemmas price_eval =
  exact_price_def price_text_filter py_def is_digit_def is_ascii_digit_def digits_value_def

text \<open>The cells of the array \<open>to_numeric\<close> reads, in terms of one price.\<close>

lemma float_of_read_cell:
  "map_option snd (read_cell fl (map_option (price_text nd) v)) = float_price nd fl v"
  by (cases v) (simp_all add: read_cell_def float_price_def option.map_comp comp_def option.map_ident)

lemma exact_of_read_cell:
  "read_cell fl (map_option (price_text nd) v) = Some nf \<Longrightarrow> exact_price nd v = Some (fst nf)"
  by (cases v) (auto simp: read_cell_def exact_price_def floatify_def split: if_splits)


lemma float_price_plain:
  assumes "plain_price nd v"
  shows "float_price nd fl v = exact_price nd v"
proof (cases v)
  case None
  then show ?thesis
    by (simp add: float_price_def exact_price_def)
next
  case (Some s)
  with assms have "length (price_text nd s) \<le> 16"
    and "digits_value (price_text nd s) < 9007199254740992"
    by (simp_all add: plain_price_def)
  then show ?thesis
    unfolding Some by (simp add: float_price_def exact_price_def floatify_def round_double_def)
qed

lemma float_price_None: "float_price nd fl v = None \<Longrightarrow> fits_int64 (float_price nd fl v)"
  by (simp add: fits_int64_def)

text \<open>The column, case by case.\<close>

lemma price_column_unfold:
  "price_column nd fl prs =
     astype_Int64
       (case those (map (\<lambda>v. read_cell fl (map_option (price_text nd) v)) prs) of
          None \<Rightarrow> Float64Arr (map (float_price nd fl) prs)
        | Some nfs \<Rightarrow>
            if list_all (\<lambda>nf. fst nf \<le> int64_max) nfs then Int64Arr (map fst nfs)
            else if list_all (\<lambda>nf. fst nf \<le> uint64_max) nfs then UInt64Arr (map fst nfs)
            else Float64Arr (map (float_price nd fl) prs))"
  by (auto simp: price_column_def to_numeric_col_def to_numeric_def comp_def float_of_read_cell
      split: option.splits)

lemma those_cells_exact:
  assumes "those (map (\<lambda>v. read_cell fl (map_option (price_text nd) v)) prs) = Some nfs"
  shows "map Some (map fst nfs) = map (exact_price nd) prs"
proof -
  from those_map_Some [OF assms]
  have m: "map (\<lambda>v. read_cell fl (map_option (price_text nd) v)) prs = map Some nfs" .
  then have l: "length nfs = length prs"
    by (metis length_map)
  show ?thesis
  proof (rule nth_equalityI)
    show "length (map Some (map fst nfs)) = length (map (exact_price nd) prs)"
      using l by simp
  next
    fix i assume "i < length (map Some (map fst nfs))"
    then have i: "i < length prs" "i < length nfs"
      using l by simp_all
    from m have "map (\<lambda>v. read_cell fl (map_option (price_text nd) v)) prs ! i = map Some nfs ! i"
      by simp
    with i have "read_cell fl (map_option (price_text nd) (prs ! i)) = Some (nfs ! i)"
      by simp
    then have "exact_price nd (prs ! i) = Some (fst (nfs ! i))"
      by (rule exact_of_read_cell)
    with i show "map Some (map fst nfs) ! i = map (exact_price nd) prs ! i"
      by simp
  qed
qed

lemma those_cells_member:
  assumes "those (map (\<lambda>v. read_cell fl (map_option (price_text nd) v)) prs) = Some nfs"
    and "nf \<in> set nfs"
  shows "\<exists>v\<in>set prs. read_cell fl (map_option (price_text nd) v) = Some nf"
proof -
  from those_map_Some [OF assms(1)]
  have "map (\<lambda>v. read_cell fl (map_option (price_text nd) v)) prs = map Some nfs" .
  then have "Some nf \<in> set (map (\<lambda>v. read_cell fl (map_option (price_text nd) v)) prs)"
    using assms(2) by simp
  then show ?thesis
    by auto
qed


lemma read_cell_plain:
  "plain_price nd v \<Longrightarrow> read_cell fl (map_option (price_text nd) v) = Some nf \<Longrightarrow>
     fst nf \<le> int64_max"
  by (cases v) (auto simp: plain_price_def read_cell_def int64_max_def)



lemma price_column_plain:
  assumes "list_all (plain_price nd) prs"
  shows "price_column nd fl prs = Int64Col (map (exact_price nd) prs)"
proof -
  let ?cells = "map (\<lambda>v. read_cell fl (map_option (price_text nd) v)) prs"
  have fe: "map (float_price nd fl) prs = map (exact_price nd) prs"
    using assms by (simp add: list_all_iff float_price_plain)
  show ?thesis
  proof (cases "those ?cells")
    case None
    have "fits_int64 (float_price nd fl v)" if "v \<in> set prs" for v
    proof (cases "exact_price nd v")
      case None
      with that assms show ?thesis
        by (simp add: list_all_iff float_price_plain fits_int64_def)
    next
      case (Some n)
      from that assms have p: "plain_price nd v"
        by (simp add: list_all_iff)
      from Some have "0 \<le> n"
        by (rule exact_price_nonneg)
      moreover from Some p have "n < 9007199254740992"
        by (cases v) (auto simp: exact_price_def plain_price_def split: if_splits)
      ultimately show ?thesis
        using Some p by (simp add: float_price_plain fits_int64_def int64_max_def)
    qed
    then have "list_all fits_int64 (map (float_price nd fl) prs)"
      by (simp add: list_all_iff)
    then show ?thesis
      unfolding price_column_unfold None
      by (simp add: astype_Int64_def fe)
  next
    case (Some nfs)
    have "fst nf \<le> int64_max" if "nf \<in> set nfs" for nf
    proof -
      from those_cells_member [OF Some that] obtain v where
        v: "v \<in> set prs" "read_cell fl (map_option (price_text nd) v) = Some nf"
        by blast
      from v(1) assms have "plain_price nd v"
        by (simp add: list_all_iff)
      from read_cell_plain [OF this v(2)] show ?thesis .
    qed
    then have "list_all (\<lambda>nf. fst nf \<le> int64_max) nfs"
      by (simp add: list_all_iff)
    then show ?thesis
      unfolding price_column_unfold Some
      using those_cells_exact [OF Some] by (simp add: astype_Int64_def)
  qed
qed






section \<open>Artifact columns\<close>

lemma example_two_rows:
  "transform_data (\<lambda>c. False) (\<lambda>s. None) (example_frame [py ''Unnamed: 0'', py ''idx Unnamed: 7''] 2)
     = Inr (example_result 2)"
  by code_simp

lemma keys_drop_unnamed:
  "fst ` set (drop_unnamed df) = {n \<in> fst ` set df. \<not> sublist prefix_unnamed n}"
proof -
  have "fst ` set (drop_unnamed df) = set (map fst (drop_unnamed df))"
    by simp
  also have "\<dots> = {n \<in> fst ` set df. \<not> sublist prefix_unnamed n}"
    unfolding names_drop_unnamed by auto
  finally show ?thesis .
qed

lemma transform_data_names:
  assumes "transform_data nd fl df = Inr out"
  shows "set (map fst out) =
     insert (py ''Brand_Name'')
       ({n \<in> set (map fst df). \<not> sublist (py ''Unnamed:'') n} - {py ''Title''})"
proof -
  from assms obtain full where f: "transform_full nd fl df = Inr full" and o: "out = head 50 full"
    unfolding transform_data_Inr by blast
  show ?thesis
    unfolding o names_head transform_full_names [OF f]
    by (auto simp: AList.dom_update keys_drop_unnamed prefix_unnamed_def)
qed

text \<open>
  C10.  The first statement drops every column whose label contains the text
  \<open>Unnamed:\<close> anywhere, not only at its start.  So when \<open>transform_data\<close> returns a
  frame, no label of it contains \<open>Unnamed:\<close>, an input column with \<open>Unnamed:\<close> in
  the middle of its label is gone, and the labels left are those of the other input
  columns without \<open>Title\<close>, and \<open>Brand_Name\<close>.
\<close>

theorem unnamed_columns_dropped:
  "drop_unnamed df = filter (\<lambda>nc. \<not> sublist (py ''Unnamed:'') (fst nc)) df
   \<and> (transform_data nd fl df = Inr out \<longrightarrow>
        (\<forall>n\<in>set (map fst out). \<not> sublist (py ''Unnamed:'') n)
      \<and> (\<forall>n\<in>set (map fst df). sublist (py ''Unnamed:'') n \<longrightarrow> n \<notin> set (map fst out))
      \<and> set (map fst out) =
          insert (py ''Brand_Name'')
            ({n \<in> set (map fst df). \<not> sublist (py ''Unnamed:'') n} - {py ''Title''}))"
proof -
  have a: "drop_unnamed df = filter (\<lambda>nc. \<not> sublist (py ''Unnamed:'') (fst nc)) df"
    using drop_unnamed_filter [of df] by (simp add: prefix_unnamed_def)
  have b: "\<not> sublist (py ''Unnamed:'') (py ''Brand_Name'')"
    using fixed_names_kept(2) by (simp add: prefix_unnamed_def)
  have "(\<forall>n\<in>set (map fst out). \<not> sublist (py ''Unnamed:'') n)
      \<and> (\<forall>n\<in>set (map fst df). sublist (py ''Unnamed:'') n \<longrightarrow> n \<notin> set (map fst out))
      \<and> set (map fst out) =
          insert (py ''Brand_Name'')
            ({n \<in> set (map fst df). \<not> sublist (py ''Unnamed:'') n} - {py ''Title''})"
    if "transform_data nd fl df = Inr out"
    using transform_data_names [OF that] b by auto
  with a show ?thesis
    by blast
qed

theorem unnamed_columns_dropped_witness:
  "transform_data (\<lambda>c. False) (\<lambda>s. None) (example_frame [py ''Unnamed: 0'', py ''idx Unnamed: 7''] 2)
     = Inr (example_result 2)
   \<and> py ''idx Unnamed: 7'' \<in> set (map fst (example_frame [py ''Unnamed: 0'', py ''idx Unnamed: 7''] 2))
   \<and> sublist (py ''Unnamed:'') (py ''idx Unnamed: 7'')
   \<and> py ''idx Unnamed: 7'' \<notin> set (map fst (example_result 2))
   \<and> list_all (\<lambda>n. \<not> sublist (py ''Unnamed:'') n) (map fst (example_result 2))"
proof -
  have m: "py ''idx Unnamed: 7'' \<in> set (map fst (example_frame [py ''Unnamed: 0'', py ''idx Unnamed: 7''] 2))"
    by (simp add: example_frame_def)
  have s: "sublist (py ''Unnamed:'') (py ''idx Unnamed: 7'')"
    by code_simp
  from unnamed_columns_dropped [of "example_frame [py ''Unnamed: 0'', py ''idx Unnamed: 7''] 2"
      "\<lambda>c. False" "\<lambda>s. None" "example_result 2"] example_two_rows m s
  have "py ''idx Unnamed: 7'' \<notin> set (map fst (example_result 2))
      \<and> (\<forall>n\<in>set (map fst (example_result 2)). \<not> sublist (py ''Unnamed:'') n)"
    by blast
  with example_two_rows m s show ?thesis
    unfolding list_all_iff by blast
qed

section \<open>The example, for any number of rows\<close>

lemma example_cells:
  "brand_name (Some (py ''Dell Inspiron 15'')) = Some (py ''Dell'')"
  "processor_rule (py ''Intel Core 7 Processor (12th Gen)'') = py ''Intel Core i7 Processor''"
  "two_tokens (py ''8 GB DDR4 3200MHz'') = py ''8 GB''"
  "os_rule (py ''64 bit Windows 11 Home Operating System'') = py ''64 bit Windows 11 Operating System''"
  "warranty_rule (py ''1 Years Warranty'') = py ''1 Year''"
  "rating_rule (py ''45,990'') = py ''45,990''"
  by code_simp+

lemma example_price:
  assumes "\<not> nd 8377"
  shows "price_column nd fl (replicate n (Some (8377 # py ''45,990'')))
     = Int64Col (replicate n (Some 45990))"
proof -
  have "plain_price nd (Some (8377 # py ''45,990''))"
    using assms
    by (simp add: plain_price_def price_text_filter py_def is_digit_def is_ascii_digit_def
        digits_value_def)
  then have "list_all (plain_price nd) (replicate n (Some (8377 # py ''45,990'')))"
    by (simp add: list_all_iff)
  from price_column_plain [OF this] show ?thesis
    using assms by (simp add: price_eval)
qed

lemma example_artifact: "sublist prefix_unnamed (py ''Unnamed: 0'')"
  by code_simp

lemma example_full:
  assumes "\<not> nd 8377"
  shows "transform_full nd fl (example_frame [py ''Unnamed: 0''] n) = Inr (example_result n)"
  unfolding transform_full_Inr
  by (simp add: example_frame_def example_result_def drop_unnamed_filter example_artifact
      fixed_names_kept example_cells example_price assms)

lemma example_any_rows:
  assumes "\<not> nd 8377"
  shows "transform_data nd fl (example_frame [py ''Unnamed: 0''] n) = Inr (example_result (min 50 n))"
  unfolding transform_data_Inr
  using example_full [of nd fl n] assms
  by (simp add: head_def example_result_def min.commute)


section \<open>Brand and title\<close>

text \<open>
  C6.  When \<open>transform_data\<close> returns a frame, its \<open>Brand_Name\<close> column holds, row by
  row, the first whitespace-delimited token of the title of that row (of the first 50
  rows), and no column is labelled \<open>Title\<close>.  The first token of a title is the run of
  non-whitespace characters after the leading whitespace; a missing title, an empty one
  and one of whitespace only give a missing brand.
\<close>

theorem brand_from_title:
  "(transform_data nd fl df = Inr out \<longrightarrow>
      (\<exists>ts. map_of df (py ''Title'') = Some (ObjectCol ts)
         \<and> map_of out (py ''Brand_Name'') = Some (ObjectCol (take 50 (map brand_name ts)))
         \<and> py ''Title'' \<notin> set (map fst out)))
   \<and> brand_name None = None
   \<and> (list_all is_space s \<longrightarrow> brand_name (Some s) = None)
   \<and> (\<not> list_all is_space s \<longrightarrow>
        (\<exists>pre w post. brand_name (Some s) = Some w \<and> s = pre @ w @ post
           \<and> list_all is_space pre \<and> w \<noteq> [] \<and> list_all non_space w
           \<and> (post = [] \<or> is_space (hd post))))"
proof -
  have a: "\<exists>ts. map_of df (py ''Title'') = Some (ObjectCol ts)
         \<and> map_of out (py ''Brand_Name'') = Some (ObjectCol (take 50 (map brand_name ts)))
         \<and> py ''Title'' \<notin> set (map fst out)"
    if h: "transform_data nd fl df = Inr out"
  proof -
    from h obtain full where f: "transform_full nd fl df = Inr full" and o: "out = head 50 full"
      unfolding transform_data_Inr by blast
    from transform_full_cols [OF f] obtain ts where
      t: "map_of df (py ''Title'') = Some (ObjectCol ts)"
      and b: "map_of full (py ''Brand_Name'') = Some (ObjectCol (map brand_name ts))"
      by blast
    have "map_of out (py ''Brand_Name'') = Some (ObjectCol (take 50 (map brand_name ts)))"
      unfolding o map_of_head b by simp
    moreover have "py ''Title'' \<notin> set (map fst out)"
      unfolding transform_data_names [OF h] by simp
    ultimately show ?thesis
      using t by blast
  qed
  have b: "brand_name None = None"
    by (simp add: brand_name_def)
  have c: "brand_name (Some s) = None" if "list_all is_space s"
    using that by (simp add: brand_name_def split_ws_Nil_iff [symmetric])
  have d: "\<exists>pre w post. brand_name (Some s) = Some w \<and> s = pre @ w @ post
           \<and> list_all is_space pre \<and> w \<noteq> [] \<and> list_all non_space w
           \<and> (post = [] \<or> is_space (hd post))" if "\<not> list_all is_space s"
  proof -
    from split_ws_first [OF that] obtain pre w post where
      e: "split_ws s = w # split_ws post" "s = pre @ w @ post" "list_all is_space pre"
        "w \<noteq> []" "list_all non_space w" "post = [] \<or> is_space (hd post)"
      by blast
    from e(1) have "brand_name (Some s) = Some w"
      by (simp add: brand_name_def)
    with e show ?thesis
      by blast
  qed
  from a b c d show ?thesis
    by blast
qed

theorem brand_from_title_witness:
  "transform_data (\<lambda>c. False) (\<lambda>s. None) (example_frame [py ''Unnamed: 0''] 200) = Inr (example_result 50)
   \<and> map_of (example_frame [py ''Unnamed: 0''] 200) (py ''Title'')
        = Some (ObjectCol (replicate 200 (Some (py ''Dell Inspiron 15''))))
   \<and> map_of (example_result 50) (py ''Brand_Name'')
        = Some (ObjectCol (take 50 (map brand_name (replicate 200 (Some (py ''Dell Inspiron 15''))))))
   \<and> py ''Title'' \<notin> set (map fst (example_result 50))
   \<and> brand_name (Some (py ''Dell Inspiron 15'')) = Some (py ''Dell'')"
proof -
  have h: "transform_data (\<lambda>c. False) (\<lambda>s. None) (example_frame [py ''Unnamed: 0''] 200)
      = Inr (example_result 50)"
    using example_any_rows [of "\<lambda>c. False" "\<lambda>s. None" 200] by simp
  have t: "map_of (example_frame [py ''Unnamed: 0''] 200) (py ''Title'')
        = Some (ObjectCol (replicate 200 (Some (py ''Dell Inspiron 15''))))"
    by (simp add: example_frame_def)
  from brand_from_title [of "\<lambda>c. False" "\<lambda>s. None" "example_frame [py ''Unnamed: 0''] 200"
      "example_result 50" "[]"] h t
  have "map_of (example_result 50) (py ''Brand_Name'')
        = Some (ObjectCol (take 50 (map brand_name (replicate 200 (Some (py ''Dell Inspiron 15''))))))
     \<and> py ''Title'' \<notin> set (map fst (example_result 50))"
    by auto
  with h t example_cells(1) show ?thesis
    by blast
qed

section \<open>The first 50 rows\<close>

text \<open>
  C8.  The frame \<open>transform_data\<close> returns is the frame left by the rules cut to its
  first 50 rows: the same columns in the same order, each holding the first 50 cells of
  the normalized column, so min(50, rows) cells.  The rules keep the number of rows: when
  every input column has \<open>n\<close> rows, every normalized column has \<open>n\<close> rows and every
  returned column min(50, \<open>n\<close>).
\<close>

theorem first_fifty_rows:
  "(transform_data nd fl df = Inr out \<longrightarrow>
      (\<exists>full. transform_full nd fl df = Inr full \<and> out = head 50 full
         \<and> map fst out = map fst full
         \<and> (\<forall>i<length full. snd (out ! i) = head_col 50 (snd (full ! i))
               \<and> col_len (snd (out ! i)) = min 50 (col_len (snd (full ! i))))
         \<and> ((\<forall>nc\<in>set df. col_len (snd nc) = n) \<longrightarrow>
               (\<forall>nc\<in>set full. col_len (snd nc) = n)
             \<and> (\<forall>nc\<in>set out. col_len (snd nc) = min 50 n))))
   \<and> head_col 50 (ObjectCol xs) = ObjectCol (take 50 xs)
   \<and> head_col 50 (Int64Col ns) = Int64Col (take 50 ns)
   \<and> head_col 50 (UInt64Col us) = UInt64Col (take 50 us)
   \<and> head_col 50 (Float64Col fs) = Float64Col (take 50 fs)"
proof -
  have "\<exists>full. transform_full nd fl df = Inr full \<and> out = head 50 full
         \<and> map fst out = map fst full
         \<and> (\<forall>i<length full. snd (out ! i) = head_col 50 (snd (full ! i))
               \<and> col_len (snd (out ! i)) = min 50 (col_len (snd (full ! i))))
         \<and> ((\<forall>nc\<in>set df. col_len (snd nc) = n) \<longrightarrow>
               (\<forall>nc\<in>set full. col_len (snd nc) = n)
             \<and> (\<forall>nc\<in>set out. col_len (snd nc) = min 50 n))"
    if h: "transform_data nd fl df = Inr out"
  proof -
    from h obtain full where f: "transform_full nd fl df = Inr full" and o: "out = head 50 full"
      unfolding transform_data_Inr by blast
    have a: "map fst out = map fst full"
      unfolding o by (rule names_head)
    have b: "\<forall>i<length full. snd (out ! i) = head_col 50 (snd (full ! i))
               \<and> col_len (snd (out ! i)) = min 50 (col_len (snd (full ! i)))"
      unfolding o by (simp add: head_def col_len_head)
    have c: "(\<forall>nc\<in>set full. col_len (snd nc) = n)
             \<and> (\<forall>nc\<in>set out. col_len (snd nc) = min 50 n)"
      if w: "\<forall>nc\<in>set df. col_len (snd nc) = n"
      using transform_full_rows [OF f w] unfolding o by (auto simp: head_def col_len_head)
    from f o a b c show ?thesis
      by blast
  qed
  then show ?thesis
    by simp
qed

theorem first_fifty_rows_witness:
  "transform_data (\<lambda>c. False) (\<lambda>s. None) (example_frame [py ''Unnamed: 0''] 200) = Inr (example_result 50)
   \<and> list_all (\<lambda>nc. col_len (snd nc) = 200) (example_frame [py ''Unnamed: 0''] 200)
   \<and> list_all (\<lambda>nc. col_len (snd nc) = min 50 200) (example_result 50)"
proof -
  have h: "transform_data (\<lambda>c. False) (\<lambda>s. None) (example_frame [py ''Unnamed: 0''] 200)
      = Inr (example_result 50)"
    using example_any_rows [of "\<lambda>c. False" "\<lambda>s. None" 200] by simp
  have w: "\<forall>nc\<in>set (example_frame [py ''Unnamed: 0''] 200). col_len (snd nc) = 200"
    by (simp add: example_frame_def)
  from first_fifty_rows [of "\<lambda>c. False" "\<lambda>s. None" "example_frame [py ''Unnamed: 0''] 200"
      "example_result 50" 200 "[]" "[]"] h w
  have "\<forall>nc\<in>set (example_result 50). col_len (snd nc) = min 50 200"
    by blast
  with h w show ?thesis
    unfolding list_all_iff by blast
qed

section \<open>A missing cell under the join\<close>

lemma missing_cell_frames:
  "transform_data nd fl
     [(py ''Title'', ObjectCol [Some (py ''Dell Inspiron 15''), Some (py ''HP Pavilion 14'')]),
      (py ''Processor'', ObjectCol [Some (py ''Intel Core 5 Processor (11th Gen)''),
                                    Some (py ''AMD Ryzen 5'')]),
      (py ''RAM'', ObjectCol [Some (py ''16 GB DDR4 RAM''), None]),
      (py ''Operating_System'', ObjectCol [Some (py ''Windows 11''), Some (py ''Windows 11'')]),
      (py ''Warranty'', ObjectCol [Some (py ''1 Yr Warranty''), Some (py ''1 Year'')]),
      (py ''Prices'', ObjectCol [Some (8377 # py ''74,990''), Some (8377 # py ''57,499'')]),
      (py ''Rating'', ObjectCol [Some (py ''4.5''), Some (py ''74,990'')])]
     = Inl TypeError
   \<and> transform_data nd fl
     [(py ''Title'', ObjectCol [Some (py ''Dell Inspiron 15''), Some (py ''HP Pavilion 14'')]),
      (py ''Processor'', ObjectCol [Some (py ''Intel Core 5 Processor (11th Gen)''),
                                    Some (py ''AMD Ryzen 5'')]),
      (py ''RAM'', ObjectCol [Some (py ''16 GB DDR4 RAM''), Some (py ''8 GB'')]),
      (py ''Operating_System'', ObjectCol [Some (py ''Windows 11''), Some (py ''Windows 11'')]),
      (py ''Warranty'', ObjectCol [Some (py ''1 Yr Warranty''), None]),
      (py ''Prices'', ObjectCol [Some (8377 # py ''74,990''), Some (8377 # py ''57,499'')]),
      (py ''Rating'', ObjectCol [Some (py ''4.5''), Some (py ''74,990'')])]
     = Inl TypeError"
  by code_simp

text \<open>
  C1.  \<open>transform_data\<close> returns a frame only when no cell of the RAM column and no
  cell of the warranty column is missing.  On a frame of two rows whose second row has no
  RAM value, and on the same frame with the warranty value missing instead, it ends in
  \<open>TypeError\<close>: \<open>apply_join\<close> is handed the missing cell.
\<close>

theorem missing_cell_raises:
  "(transform_data nd fl df = Inr out \<longrightarrow>
      (\<exists>rs ws. map_of df (py ''RAM'') = Some (ObjectCol rs)
         \<and> map_of df (py ''Warranty'') = Some (ObjectCol ws)
         \<and> None \<notin> set rs \<and> None \<notin> set ws))
   \<and> transform_data nd fl
     [(py ''Title'', ObjectCol [Some (py ''Dell Inspiron 15''), Some (py ''HP Pavilion 14'')]),
      (py ''Processor'', ObjectCol [Some (py ''Intel Core 5 Processor (11th Gen)''),
                                    Some (py ''AMD Ryzen 5'')]),
      (py ''RAM'', ObjectCol [Some (py ''16 GB DDR4 RAM''), None]),
      (py ''Operating_System'', ObjectCol [Some (py ''Windows 11''), Some (py ''Windows 11'')]),
      (py ''Warranty'', ObjectCol [Some (py ''1 Yr Warranty''), Some (py ''1 Year'')]),
      (py ''Prices'', ObjectCol [Some (8377 # py ''74,990''), Some (8377 # py ''57,499'')]),
      (py ''Rating'', ObjectCol [Some (py ''4.5''), Some (py ''74,990'')])]
     = Inl TypeError
   \<and> transform_data nd fl
     [(py ''Title'', ObjectCol [Some (py ''Dell Inspiron 15''), Some (py ''HP Pavilion 14'')]),
      (py ''Processor'', ObjectCol [Some (py ''Intel Core 5 Processor (11th Gen)''),
                                    Some (py ''AMD Ryzen 5'')]),
      (py ''RAM'', ObjectCol [Some (py ''16 GB DDR4 RAM''), Some (py ''8 GB'')]),
      (py ''Operating_System'', ObjectCol [Some (py ''Windows 11''), Some (py ''Windows 11'')]),
      (py ''Warranty'', ObjectCol [Some (py ''1 Yr Warranty''), None]),
      (py ''Prices'', ObjectCol [Some (8377 # py ''74,990''), Some (8377 # py ''57,499'')]),
      (py ''Rating'', ObjectCol [Some (py ''4.5''), Some (py ''74,990'')])]
     = Inl TypeError"
proof -
  have "\<exists>rs ws. map_of df (py ''RAM'') = Some (ObjectCol rs)
         \<and> map_of df (py ''Warranty'') = Some (ObjectCol ws)
         \<and> None \<notin> set rs \<and> None \<notin> set ws"
    if h: "transform_data nd fl df = Inr out"
  proof -
    from h obtain full where f: "transform_full nd fl df = Inr full"
      unfolding transform_data_Inr by blast
    from transform_full_cols [OF f] show ?thesis
      by blast
  qed
  then show ?thesis
    using missing_cell_frames [of nd] by blast
qed

theorem missing_cell_raises_witness:
  "transform_data (\<lambda>c. False) (\<lambda>s. None) (example_frame [py ''Unnamed: 0''] 200) = Inr (example_result 50)
   \<and> map_of (example_frame [py ''Unnamed: 0''] 200) (py ''RAM'')
        = Some (ObjectCol (replicate 200 (Some (py ''8 GB DDR4 3200MHz''))))
   \<and> None \<notin> set (replicate 200 (Some (py ''8 GB DDR4 3200MHz'')))"
proof -
  have h: "transform_data (\<lambda>c. False) (\<lambda>s. None) (example_frame [py ''Unnamed: 0''] 200)
      = Inr (example_result 50)"
    using example_any_rows [of "\<lambda>c. False" "\<lambda>s. None" 200] by simp
  have t: "map_of (example_frame [py ''Unnamed: 0''] 200) (py ''RAM'')
        = Some (ObjectCol (replicate 200 (Some (py ''8 GB DDR4 3200MHz''))))"
    by (simp add: example_frame_def)
  from missing_cell_raises [of "\<lambda>c. False" "\<lambda>s. None" "example_frame [py ''Unnamed: 0''] 200"
      "example_result 50"] h t
  have "None \<notin> set (replicate 200 (Some (py ''8 GB DDR4 3200MHz'')))"
    by auto
  with h t show ?thesis
    by blast
qed

section \<open>Tokens\<close>

lemma split_ws_tokens: "w \<in> set (split_ws s) \<Longrightarrow> w \<noteq> [] \<and> list_all non_space w"
proof (induction s rule: split_ws.induct)
  case (1 s)
  show ?case
  proof (cases "list_all is_space s")
    case True
    with "1.prems" show ?thesis
      by (simp add: split_ws_Nil_iff [symmetric])
  next
    case False
    from split_ws_first [OF False] obtain pre v post where
      e: "split_ws s = v # split_ws post" "v \<noteq> []" "list_all non_space v"
      by blast
    have ne: "dropWhile is_space s \<noteq> []"
      using False by (simp add: list_all_iff)
    have "split_ws s = takeWhile non_space (dropWhile is_space s)
        # split_ws (dropWhile non_space (dropWhile is_space s))"
      using ne by (subst split_ws.simps) simp
    with e(1) have p: "split_ws s = v # split_ws (dropWhile non_space (dropWhile is_space s))"
      by simp
    from "1.prems" p have "w = v \<or> w \<in> set (split_ws (dropWhile non_space (dropWhile is_space s)))"
      by auto
    then show ?thesis
      using e(2,3) "1.IH" [OF ne] by blast
  qed
qed

lemma concat_split_ws: "concat (split_ws s) = filter non_space s"
proof (induction s rule: split_ws.induct)
  case (1 s)
  define t where "t = dropWhile is_space s"
  have fs: "filter non_space s = filter non_space t"
  proof -
    have "filter non_space s = filter non_space (takeWhile is_space s @ t)"
      by (simp add: t_def)
    also have "\<dots> = filter non_space (takeWhile is_space s) @ filter non_space t"
      by simp
    also have "filter non_space (takeWhile is_space s) = []"
      by (simp add: filter_empty_conv non_space_def) (meson set_takeWhileD)
    finally show ?thesis
      by simp
  qed
  show ?case
  proof (cases "t = []")
    case True
    have "split_ws s = []"
      using True by (subst split_ws.simps) (simp add: t_def)
    moreover have "filter non_space t = []"
      using True by simp
    ultimately show ?thesis
      using fs by simp
  next
    case False
    have ne: "dropWhile is_space s \<noteq> []"
      using False by (simp only: t_def not_False_eq_True)
    have "split_ws s = takeWhile non_space t # split_ws (dropWhile non_space t)"
      unfolding t_def by (subst split_ws.simps) (simp only: ne if_False)
    then have "concat (split_ws s)
        = takeWhile non_space t @ concat (split_ws (dropWhile non_space t))"
      by simp
    also have "concat (split_ws (dropWhile non_space t)) = filter non_space (dropWhile non_space t)"
      using "1.IH" [OF ne] by (simp only: t_def)
    finally have c: "concat (split_ws s)
        = takeWhile non_space t @ filter non_space (dropWhile non_space t)" .
    have a: "filter non_space (takeWhile non_space t) = takeWhile non_space t"
      by (auto simp: filter_id_conv dest: set_takeWhileD)
    have "filter non_space (takeWhile non_space t @ dropWhile non_space t)
        = takeWhile non_space t @ filter non_space (dropWhile non_space t)"
      by (simp only: filter_append a)
    then have "filter non_space t
        = takeWhile non_space t @ filter non_space (dropWhile non_space t)"
      by simp
    with c fs show ?thesis
      by simp
  qed
qed

lemma split_ws_skip: "is_space c \<Longrightarrow> split_ws (c # r) = split_ws r"
  by (subst split_ws.simps, subst (2) split_ws.simps) simp

lemma split_ws_token_space:
  assumes "w \<noteq> []" "list_all non_space w" "is_space c"
  shows "split_ws (w @ c # r) = w # split_ws r"
proof -
  from assms(1,2) have h: "\<not> is_space (hd w)"
    by (cases w) (simp_all add: non_space_def)
  have d: "dropWhile is_space (w @ c # r) = w @ c # r"
    using assms(1) h by (cases w) simp_all
  have t: "takeWhile non_space (w @ c # r) = w"
    using assms(2,3) by (simp add: list_all_iff takeWhile_append2 non_space_def)
  have dd: "dropWhile non_space (w @ c # r) = c # r"
    using assms(2,3) by (simp add: list_all_iff dropWhile_append2 non_space_def)
  show ?thesis
    using assms(1) by (subst split_ws.simps) (simp add: d t dd split_ws_skip [OF assms(3)])
qed

lemma split_ws_token:
  assumes "w \<noteq> []" "list_all non_space w"
  shows "split_ws w = [w]"
proof -
  from assms have h: "\<not> is_space (hd w)"
    by (cases w) (simp_all add: non_space_def)
  have d: "dropWhile is_space w = w"
    using assms(1) h by (cases w) simp_all
  have t: "takeWhile non_space w = w" "dropWhile non_space w = []"
    using assms(2) by (simp_all add: list_all_iff)
  have "split_ws [] = []"
    by (subst split_ws.simps) simp
  then show ?thesis
    using assms(1) by (subst split_ws.simps) (simp add: d t)
qed

lemma is_space_32: "is_space 32"
  by (simp add: is_space_def)

lemma split_join:
  "\<forall>w\<in>set ts. w \<noteq> [] \<and> list_all non_space w \<Longrightarrow> split_ws (join_space ts) = ts"
proof (induction ts rule: join_space.induct)
  case 1
  show ?case
    by (subst split_ws.simps) simp
next
  case (2 t)
  then show ?case
    by (simp add: split_ws_token)
next
  case (3 t u ts)
  then show ?case
    by (simp add: split_ws_token_space is_space_32)
qed

lemma split_two_tokens: "split_ws (two_tokens s) = take 2 (split_ws s)"
  unfolding two_tokens_def
proof (rule split_join, rule ballI)
  fix w
  assume "w \<in> set (take 2 (split_ws s))"
  then have "w \<in> set (split_ws s)"
    by (rule in_set_takeD)
  then show "w \<noteq> [] \<and> list_all non_space w"
    by (rule split_ws_tokens)
qed

lemma two_tokens_idem: "two_tokens (two_tokens s) = two_tokens s"
  by (simp add: two_tokens_def split_two_tokens [unfolded two_tokens_def])


section \<open>RAM and warranty: the first two tokens\<close>

lemma example_ram: "two_tokens (py ''16 GB DDR4 RAM'') = py ''16 GB''"
  by code_simp

text \<open>
  C7.  On a present string the RAM statement, and the warranty statement before its
  mapping, give the first two whitespace-delimited tokens joined by one space: nothing for
  no token, the token itself for one, the two with a space between for two or more.  The
  tokens are the maximal runs of non-whitespace characters, in order, so the result read
  again has those at most two tokens; \<open>16 GB DDR4 RAM\<close> gives \<open>16 GB\<close>.  In a returned
  frame the RAM column holds these values and the warranty column the mapping of them.
\<close>

theorem first_two_tokens:
  "two_tokens s = join_space (take 2 (split_ws s))
   \<and> (\<forall>w\<in>set (split_ws s). w \<noteq> [] \<and> list_all non_space w)
   \<and> concat (split_ws s) = filter non_space s
   \<and> (list_all is_space s \<longrightarrow> split_ws s = [])
   \<and> (\<not> list_all is_space s \<longrightarrow>
        (\<exists>pre w post. split_ws s = w # split_ws post \<and> s = pre @ w @ post
           \<and> list_all is_space pre \<and> (post = [] \<or> is_space (hd post))))
   \<and> (split_ws s = [] \<longrightarrow> two_tokens s = [])
   \<and> (split_ws s = [a] \<longrightarrow> two_tokens s = a)
   \<and> (split_ws s = a # b # r \<longrightarrow> two_tokens s = a @ [32] @ b)
   \<and> split_ws (two_tokens s) = take 2 (split_ws s)
   \<and> length (split_ws (two_tokens s)) \<le> 2
   \<and> two_tokens (py ''16 GB DDR4 RAM'') = py ''16 GB''
   \<and> (transform_data nd fl df = Inr out \<longrightarrow>
        (\<exists>rs ws. map_of df (py ''RAM'') = Some (ObjectCol rs)
           \<and> map_of df (py ''Warranty'') = Some (ObjectCol ws)
           \<and> None \<notin> set rs \<and> None \<notin> set ws
           \<and> map_of out (py ''RAM'') = Some (ObjectCol (take 50 (map (map_option two_tokens) rs)))
           \<and> map_of out (py ''Warranty'') = Some (ObjectCol (take 50
                 (map (map_option (\<lambda>v. replace_each warranty_replacements (two_tokens v))) ws)))))"
proof -
  have t1: "\<forall>w\<in>set (split_ws s). w \<noteq> [] \<and> list_all non_space w"
    using split_ws_tokens by blast
  have t2: "list_all is_space s \<longrightarrow> split_ws s = []"
    by (simp add: split_ws_Nil_iff)
  have t3: "\<not> list_all is_space s \<longrightarrow>
        (\<exists>pre w post. split_ws s = w # split_ws post \<and> s = pre @ w @ post
           \<and> list_all is_space pre \<and> (post = [] \<or> is_space (hd post)))"
    using split_ws_first [of s] by blast
  have t4: "split_ws s = [] \<longrightarrow> two_tokens s = []"
    "split_ws s = [a] \<longrightarrow> two_tokens s = a"
    "split_ws s = a # b # r \<longrightarrow> two_tokens s = a @ [32] @ b"
    by (simp_all add: two_tokens_def numeral_2_eq_2)
  have t5: "length (split_ws (two_tokens s)) \<le> 2"
    by (simp add: split_two_tokens)
  have t6: "\<exists>rs ws. map_of df (py ''RAM'') = Some (ObjectCol rs)
           \<and> map_of df (py ''Warranty'') = Some (ObjectCol ws)
           \<and> None \<notin> set rs \<and> None \<notin> set ws
           \<and> map_of out (py ''RAM'') = Some (ObjectCol (take 50 (map (map_option two_tokens) rs)))
           \<and> map_of out (py ''Warranty'') = Some (ObjectCol (take 50
                 (map (map_option (\<lambda>v. replace_each warranty_replacements (two_tokens v))) ws)))"
    if h: "transform_data nd fl df = Inr out"
  proof -
    from h obtain full where f: "transform_full nd fl df = Inr full" and o: "out = head 50 full"
      unfolding transform_data_Inr by blast
    from transform_full_cols [OF f] obtain rs ws where
      c: "map_of df (py ''RAM'') = Some (ObjectCol rs)"
         "map_of df (py ''Warranty'') = Some (ObjectCol ws)"
         "None \<notin> set rs" "None \<notin> set ws"
         "map_of full (py ''RAM'') = Some (ObjectCol (map (map_option two_tokens) rs))"
         "map_of full (py ''Warranty'') = Some (ObjectCol (map (map_option warranty_rule) ws))"
      by blast
    have "map_of out (py ''RAM'') = Some (ObjectCol (take 50 (map (map_option two_tokens) rs)))"
      "map_of out (py ''Warranty'') = Some (ObjectCol (take 50
          (map (map_option (\<lambda>v. replace_each warranty_replacements (two_tokens v))) ws)))"
      unfolding o map_of_head c(5,6) by (simp_all add: warranty_rule_fun)
    with c(1-4) show ?thesis
      by blast
  qed
  show ?thesis
    using t1 t2 t3 t4 t5 t6 concat_split_ws [of s] split_two_tokens [of s] example_ram
    by (simp only: two_tokens_def [symmetric] simp_thms) (simp add: two_tokens_def)
qed

theorem first_two_tokens_witness:
  "transform_data (\<lambda>c. False) (\<lambda>s. None) (example_frame [py ''Unnamed: 0''] 200) = Inr (example_result 50)
   \<and> map_of (example_frame [py ''Unnamed: 0''] 200) (py ''RAM'')
        = Some (ObjectCol (replicate 200 (Some (py ''8 GB DDR4 3200MHz''))))
   \<and> map_of (example_result 50) (py ''RAM'')
        = Some (ObjectCol (take 50 (map (map_option two_tokens)
             (replicate 200 (Some (py ''8 GB DDR4 3200MHz''))))))
   \<and> two_tokens (py ''8 GB DDR4 3200MHz'') = py ''8 GB''
   \<and> \<not> list_all is_space (py ''16 GB DDR4 RAM'')"
proof -
  have h: "transform_data (\<lambda>c. False) (\<lambda>s. None) (example_frame [py ''Unnamed: 0''] 200)
      = Inr (example_result 50)"
    using example_any_rows [of "\<lambda>c. False" "\<lambda>s. None" 200] by simp
  have t: "map_of (example_frame [py ''Unnamed: 0''] 200) (py ''RAM'')
        = Some (ObjectCol (replicate 200 (Some (py ''8 GB DDR4 3200MHz''))))"
    by (simp add: example_frame_def)
  have n: "\<not> list_all is_space (py ''16 GB DDR4 RAM'')"
    by code_simp
  from first_two_tokens [of "py ''16 GB DDR4 RAM''" "[]" "[]" "[]" "\<lambda>c. False" "\<lambda>s. None"
      "example_frame [py ''Unnamed: 0''] 200" "example_result 50"] h t
  have "map_of (example_result 50) (py ''RAM'')
        = Some (ObjectCol (take 50 (map (map_option two_tokens)
             (replicate 200 (Some (py ''8 GB DDR4 3200MHz''))))))"
    by auto
  with h t n example_cells(3) show ?thesis
    by blast
qed

section \<open>Replacing a text that does not occur\<close>

lemma str_replace_absent:
  "old \<noteq> [] \<Longrightarrow> \<not> sublist old s \<Longrightarrow> str_replace old new s = s"
proof (induction s)
  case Nil
  then show ?case by simp
next
  case (Cons c cs)
  from Cons.prems(2) have "\<not> prefix old (c # cs)" "\<not> sublist old cs"
    by (auto simp: sublist_Cons_right)
  with Cons show ?case
    by simp
qed

lemma set_str_replace:
  "old \<noteq> [] \<Longrightarrow> set (str_replace old new s) \<subseteq> set s \<union> set new"
proof (induction old new s rule: str_replace.induct)
  case (1 old new)
  then show ?case by simp
next
  case (2 old new c cs)
  show ?case
  proof (cases "prefix old (c # cs)")
    case True
    have "set (drop (length old) (c # cs)) \<subseteq> set (c # cs)"
      by (rule set_drop_subset)
    with 2 True show ?thesis
      by auto
  next
    case False
    with 2 show ?thesis
      by auto
  qed
qed

lemma replace_each_absent:
  "\<forall>kv\<in>set kvs. fst kv \<noteq> [] \<and> \<not> sublist (fst kv) s \<Longrightarrow> replace_each kvs s = s"
  by (induction kvs) (simp_all add: replace_each_def str_replace_absent)

section \<open>Stripping\<close>

lemma rev_split:
  "xs = rev (dropWhile P (rev xs)) @ rev (takeWhile P (rev xs))"
proof -
  have "rev (takeWhile P (rev xs) @ dropWhile P (rev xs)) = rev (rev xs)"
    by (simp only: takeWhile_dropWhile_id)
  then show ?thesis
    by (simp only: rev_append rev_rev_ident)
qed

lemma strip_decomp:
  "\<exists>l r. t = l @ strip t @ r \<and> list_all is_space l \<and> list_all is_space r"
proof -
  define u where "u = dropWhile is_space t"
  have a: "t = takeWhile is_space t @ u"
    by (simp add: u_def)
  have b: "u = strip t @ rev (takeWhile is_space (rev u))"
    using rev_split [of u is_space] by (simp only: strip_def u_def)
  have c: "list_all is_space (takeWhile is_space t)"
    "list_all is_space (rev (takeWhile is_space (rev u)))"
    by (auto simp: list_all_iff dest: set_takeWhileD)
  from a b have "t = takeWhile is_space t @ strip t @ rev (takeWhile is_space (rev u))"
    by simp
  with c show ?thesis
    by blast
qed

lemma strip_ends:
  assumes "strip t \<noteq> []"
  shows "non_space (hd (strip t)) \<and> non_space (last (strip t))"
proof -
  define u where "u = dropWhile is_space t"
  define v where "v = dropWhile is_space (rev u)"
  have s: "strip t = rev v"
    by (simp add: strip_def u_def v_def)
  with assms have vn: "v \<noteq> []"
    by simp
  then have l: "\<not> is_space (hd v)"
    unfolding v_def by (rule hd_dropWhile)
  have un: "u \<noteq> []"
    using vn by (auto simp: v_def)
  then have hu: "\<not> is_space (hd u)"
    unfolding u_def by (rule hd_dropWhile)
  have "u = rev v @ rev (takeWhile is_space (rev u))"
    using rev_split [of u is_space] by (simp only: v_def)
  then have "hd u = hd (rev v)"
    using vn by (metis hd_append2 rev_is_Nil_conv)
  with hu l s vn show ?thesis
    by (simp add: non_space_def last_rev)
qed

lemma strip_fixed:
  assumes "t = [] \<or> (non_space (hd t) \<and> non_space (last t))"
  shows "strip t = t"
proof (cases "t = []")
  case True
  then show ?thesis by (simp add: strip_def)
next
  case False
  with assms have h: "\<not> is_space (hd t)" "\<not> is_space (last t)"
    by (simp_all add: non_space_def)
  have a: "dropWhile is_space t = t"
    using False h(1) by (cases t) simp_all
  have b: "dropWhile is_space (rev t) = rev t"
    using False h(2) by (simp add: dropWhile_eq_self_iff hd_rev)
  show ?thesis
    by (simp add: strip_def a b)
qed

lemma set_strip: "set (strip t) \<subseteq> set t"
proof -
  from strip_decomp [of t] obtain l r where "t = l @ strip t @ r"
    by blast
  then have "set t = set l \<union> set (strip t) \<union> set r"
    by (metis set_append sup_assoc)
  then show ?thesis
    by blast
qed

lemma before_paren_decomp:
  "\<exists>rest. s = before_paren s @ rest \<and> 40 \<notin> set (before_paren s) \<and> (rest = [] \<or> hd rest = 40)"
proof -
  have "s = before_paren s @ dropWhile (\<lambda>c. c \<noteq> 40) s"
    by (simp add: before_paren_def)
  moreover have "40 \<notin> set (before_paren s)"
    by (auto simp: before_paren_def dest: set_takeWhileD)
  moreover have "dropWhile (\<lambda>c. c \<noteq> 40) s = [] \<or> hd (dropWhile (\<lambda>c. c \<noteq> (40::int)) s) = 40"
    using hd_dropWhile [of "\<lambda>c. c \<noteq> (40::int)" s] by blast
  ultimately show ?thesis
    by blast
qed


section \<open>Processor normalization\<close>

lemma transform_data_cols:
  assumes "transform_data nd fl df = Inr out"
  shows "\<exists>ps os ws rts.
     map_of df (py ''Processor'') = Some (ObjectCol ps)
   \<and> map_of df (py ''Operating_System'') = Some (ObjectCol os)
   \<and> map_of df (py ''Warranty'') = Some (ObjectCol ws)
   \<and> map_of df (py ''Rating'') = Some (ObjectCol rts)
   \<and> map_of out (py ''Processor'') = Some (ObjectCol (take 50 (map (map_option processor_rule) ps)))
   \<and> map_of out (py ''Operating_System'') = Some (ObjectCol (take 50 (map (map_option os_rule) os)))
   \<and> map_of out (py ''Warranty'') = Some (ObjectCol (take 50 (map (map_option warranty_rule) ws)))
   \<and> map_of out (py ''Rating'') = Some (ObjectCol (take 50 (map (map_option rating_rule) rts)))"
proof -
  from assms obtain full where f: "transform_full nd fl df = Inr full" and o: "out = head 50 full"
    unfolding transform_data_Inr by blast
  from transform_full_cols [OF f] obtain ps os ws rts where
    c: "map_of df (py ''Processor'') = Some (ObjectCol ps)"
       "map_of df (py ''Operating_System'') = Some (ObjectCol os)"
       "map_of df (py ''Warranty'') = Some (ObjectCol ws)"
       "map_of df (py ''Rating'') = Some (ObjectCol rts)"
    and d: "map_of full (py ''Processor'') = Some (ObjectCol (map (map_option processor_rule) ps))"
       "map_of full (py ''Operating_System'') = Some (ObjectCol (map (map_option os_rule) os))"
       "map_of full (py ''Warranty'') = Some (ObjectCol (map (map_option warranty_rule) ws))"
       "map_of full (py ''Rating'') = Some (ObjectCol (map (map_option rating_rule) rts))"
    by blast
  show ?thesis
    unfolding o map_of_head d using c by simp
qed

lemma processor_examples:
  "processor_rule (py ''Intel Core 5 Processor (11th Gen)'') = py ''Intel Core i5 Processor''"
  "processor_rule (py ''Intel Core 7 Processor (12th Gen)'') = py ''Intel Core i7 Processor''"
  "processor_rule (py ''Intel Core 3 Processor (12th Gen)'') = py ''Intel Core 3 Processor''"
  "processor_rule (py ''  AMD Ryzen 5 Hexa Core  (5th Gen) (2.1 GHz)'') = py ''AMD Ryzen 5 Hexa Core''"
  by code_simp+

lemma no_paren_in_processor: "40 \<notin> set (processor_rule s)"
proof -
  define t where "t = strip (before_paren s)"
  define u where
    "u = str_replace (py ''Intel Core 5 Processor'') (py ''Intel Core i5 Processor'') t"
  have "set t \<subseteq> set (before_paren s)"
    unfolding t_def by (rule set_strip)
  moreover have "40 \<notin> set (before_paren s)"
    using before_paren_decomp [of s] by blast
  ultimately have a: "40 \<notin> set t"
    by blast
  have "set u \<subseteq> set t \<union> set (py ''Intel Core i5 Processor'')"
    unfolding u_def by (rule set_str_replace) (simp add: py_def)
  moreover have "40 \<notin> set (py ''Intel Core i5 Processor'')"
    by (simp add: py_def)
  ultimately have b: "40 \<notin> set u"
    using a by blast
  have "set (processor_rule s) \<subseteq> set u \<union> set (py ''Intel Core i7 Processor'')"
    unfolding processor_rule_def u_def t_def by (rule set_str_replace) (simp add: py_def)
  moreover have "40 \<notin> set (py ''Intel Core i7 Processor'')"
    by (simp add: py_def)
  ultimately show ?thesis
    using b by blast
qed

lemma processor_unchanged:
  assumes "\<not> sublist (py ''Intel Core 5 Processor'') (strip (before_paren s))"
    and "\<not> sublist (py ''Intel Core 7 Processor'') (strip (before_paren s))"
  shows "processor_rule s = strip (before_paren s)"
proof -
  have "str_replace (py ''Intel Core 5 Processor'') (py ''Intel Core i5 Processor'')
      (strip (before_paren s)) = strip (before_paren s)"
    by (rule str_replace_absent [OF _ assms(1)]) (simp add: py_def)
  moreover have "str_replace (py ''Intel Core 7 Processor'') (py ''Intel Core i7 Processor'')
      (strip (before_paren s)) = strip (before_paren s)"
    by (rule str_replace_absent [OF _ assms(2)]) (simp add: py_def)
  ultimately show ?thesis
    by (simp add: processor_rule_def)
qed

text \<open>
  C5.  On a present string the processor statements keep the text before the first
  opening parenthesis, trim the whitespace around it, and then replace every occurrence
  of \<open>Intel Core 5 Processor\<close> by \<open>Intel Core i5 Processor\<close> and of
  \<open>Intel Core 7 Processor\<close> by \<open>Intel Core i7 Processor\<close>.  A trimmed text holding neither
  of the two is returned as it is; the result never holds an opening parenthesis;
  \<open>Intel Core 5 Processor (11th Gen)\<close> gives \<open>Intel Core i5 Processor\<close>.  In a returned
  frame the processor column holds these values, a missing cell staying missing.
\<close>

theorem processor_normalization:
  "processor_rule s =
     str_replace (py ''Intel Core 7 Processor'') (py ''Intel Core i7 Processor'')
       (str_replace (py ''Intel Core 5 Processor'') (py ''Intel Core i5 Processor'')
          (strip (before_paren s)))
   \<and> (\<exists>rest. s = before_paren s @ rest \<and> 40 \<notin> set (before_paren s)
         \<and> (rest = [] \<or> hd rest = 40))
   \<and> (\<exists>l r. before_paren s = l @ strip (before_paren s) @ r
         \<and> list_all is_space l \<and> list_all is_space r)
   \<and> (strip (before_paren s) \<noteq> [] \<longrightarrow>
        non_space (hd (strip (before_paren s))) \<and> non_space (last (strip (before_paren s))))
   \<and> 40 \<notin> set (processor_rule s)
   \<and> (\<not> sublist (py ''Intel Core 5 Processor'') (strip (before_paren s))
      \<and> \<not> sublist (py ''Intel Core 7 Processor'') (strip (before_paren s))
      \<longrightarrow> processor_rule s = strip (before_paren s))
   \<and> processor_rule (py ''Intel Core 5 Processor (11th Gen)'') = py ''Intel Core i5 Processor''
   \<and> processor_rule (py ''Intel Core 7 Processor (12th Gen)'') = py ''Intel Core i7 Processor''
   \<and> processor_rule (py ''Intel Core 3 Processor (12th Gen)'') = py ''Intel Core 3 Processor''
   \<and> (transform_data nd fl df = Inr out \<longrightarrow>
        (\<exists>ps. map_of df (py ''Processor'') = Some (ObjectCol ps)
           \<and> map_of out (py ''Processor'')
               = Some (ObjectCol (take 50 (map (map_option processor_rule) ps)))))"
proof -
  have a: "strip (before_paren s) \<noteq> [] \<longrightarrow>
        non_space (hd (strip (before_paren s))) \<and> non_space (last (strip (before_paren s)))"
    using strip_ends by blast
  have b: "\<not> sublist (py ''Intel Core 5 Processor'') (strip (before_paren s))
      \<and> \<not> sublist (py ''Intel Core 7 Processor'') (strip (before_paren s))
      \<longrightarrow> processor_rule s = strip (before_paren s)"
    using processor_unchanged by blast
  have c: "transform_data nd fl df = Inr out \<longrightarrow>
        (\<exists>ps. map_of df (py ''Processor'') = Some (ObjectCol ps)
           \<and> map_of out (py ''Processor'')
               = Some (ObjectCol (take 50 (map (map_option processor_rule) ps))))"
    using transform_data_cols [of nd fl df out] by blast
  show ?thesis
    using a b c processor_rule_def [of s] before_paren_decomp [of s]
      strip_decomp [of "before_paren s"] no_paren_in_processor [of s] processor_examples(1-3)
    by (intro conjI)
qed

theorem processor_normalization_witness:
  "transform_data (\<lambda>c. False) (\<lambda>s. None) (example_frame [py ''Unnamed: 0''] 200) = Inr (example_result 50)
   \<and> map_of (example_frame [py ''Unnamed: 0''] 200) (py ''Processor'')
        = Some (ObjectCol (replicate 200 (Some (py ''Intel Core 7 Processor (12th Gen)''))))
   \<and> map_of (example_result 50) (py ''Processor'')
        = Some (ObjectCol (take 50 (map (map_option processor_rule)
             (replicate 200 (Some (py ''Intel Core 7 Processor (12th Gen)''))))))
   \<and> strip (before_paren (py ''AMD Ryzen 5 (5th Gen)'')) = py ''AMD Ryzen 5''
   \<and> processor_rule (py ''AMD Ryzen 5 (5th Gen)'') = py ''AMD Ryzen 5''"
proof -
  have h: "transform_data (\<lambda>c. False) (\<lambda>s. None) (example_frame [py ''Unnamed: 0''] 200)
      = Inr (example_result 50)"
    using example_any_rows [of "\<lambda>c. False" "\<lambda>s. None" 200] by simp
  have t: "map_of (example_frame [py ''Unnamed: 0''] 200) (py ''Processor'')
        = Some (ObjectCol (replicate 200 (Some (py ''Intel Core 7 Processor (12th Gen)''))))"
    by (simp add: example_frame_def)
  have e: "strip (before_paren (py ''AMD Ryzen 5 (5th Gen)'')) = py ''AMD Ryzen 5''"
    "\<not> sublist (py ''Intel Core 5 Processor'') (py ''AMD Ryzen 5'')"
    "\<not> sublist (py ''Intel Core 7 Processor'') (py ''AMD Ryzen 5'')"
    by code_simp+
  note p = processor_normalization [of "py ''AMD Ryzen 5 (5th Gen)''" "\<lambda>c. False" "\<lambda>s. None"
      "example_frame [py ''Unnamed: 0''] 200" "example_result 50"]
  from p h t
  have "map_of (example_result 50) (py ''Processor'')
        = Some (ObjectCol (take 50 (map (map_option processor_rule)
             (replicate 200 (Some (py ''Intel Core 7 Processor (12th Gen)''))))))"
    by auto
  moreover have "\<not> sublist (py ''Intel Core 5 Processor'')
        (strip (before_paren (py ''AMD Ryzen 5 (5th Gen)'')))
      \<and> \<not> sublist (py ''Intel Core 7 Processor'')
        (strip (before_paren (py ''AMD Ryzen 5 (5th Gen)'')))
      \<longrightarrow> processor_rule (py ''AMD Ryzen 5 (5th Gen)'')
        = strip (before_paren (py ''AMD Ryzen 5 (5th Gen)''))"
    using p by blast
  then have "processor_rule (py ''AMD Ryzen 5 (5th Gen)'') = py ''AMD Ryzen 5''"
    using e by (simp only: simp_thms)
  ultimately show ?thesis
    using h t e(1) by blast
qed

section \<open>Warranty mapping\<close>

lemma warranty_keys:
  "map fst warranty_replacements =
     [py ''1 Yr'', py ''1 Yera'', py ''1 Years '', py ''1 year'', py ''1 Years'',
      py ''One-year International'', py ''3 Years'', py ''2 Years'']"
  by (simp add: warranty_replacements_def)

lemma warranty_keys_map:
  "list_all (\<lambda>kv. (snd kv = py ''1 Year'' \<or> snd kv = py ''2 Year'' \<or> snd kv = py ''3 Year'')
      \<and> warranty_rule (fst kv) = snd kv) warranty_replacements"
  by code_simp

lemma warranty_examples:
  "warranty_rule (py ''1 Yr Warranty'') = py ''1 Year''"
  "warranty_rule (py ''11 Yr'') = py ''11 Year''"
  "warranty_rule (py ''Lifetime Warranty Card'') = py ''Lifetime Warranty''"
  "two_tokens (py ''11 Yr'') = py ''11 Yr''"
  by code_simp+

lemma warranty_unchanged:
  assumes "\<forall>k\<in>set (map fst warranty_replacements). \<not> sublist k (two_tokens s)"
  shows "warranty_rule s = two_tokens s"
  unfolding warranty_rule_def
proof (rule replace_each_absent, rule ballI)
  fix kv
  assume m: "kv \<in> set warranty_replacements"
  then have "fst kv \<in> set (map fst warranty_replacements)"
    by simp
  with assms have "\<not> sublist (fst kv) (two_tokens s)"
    by blast
  moreover have "fst kv \<noteq> []"
    using m by (auto simp: warranty_replacements_def py_def)
  ultimately show "fst kv \<noteq> [] \<and> \<not> sublist (fst kv) (two_tokens s)"
    by blast
qed

text \<open>
  C3, as the code has it.  The warranty mapping has eight keys, not ten, and it is applied
  as eight replacements of a text inside the value, one key after the other, not as a
  lookup of the whole value: \<open>11 Yr\<close> is no key and becomes \<open>11 Year\<close>.
\<close>

theorem warranty_mapping_counterexample:
  "length warranty_replacements = 8
   \<and> py ''11 Yr'' \<notin> set (map fst warranty_replacements)
   \<and> two_tokens (py ''11 Yr'') = py ''11 Yr''
   \<and> warranty_rule (py ''11 Yr'') = py ''11 Year''"
proof -
  have "length warranty_replacements = 8"
    by (simp add: warranty_replacements_def)
  moreover have "py ''11 Yr'' \<notin> set (map fst warranty_replacements)"
    by (simp add: warranty_keys)
  ultimately show ?thesis
    using warranty_examples(2,4) by blast
qed

text \<open>
  C3, amended.  After keeping the first two tokens, the warranty statements replace, key
  after key in the order of the eight keys, every occurrence of the key inside the value
  by its replacement, which is one of \<open>1 Year\<close>, \<open>2 Year\<close>, \<open>3 Year\<close>.  Each key given as
  the value becomes its canonical form; a value whose first two tokens hold none of the
  keys keeps those two tokens unchanged; \<open>1 Yr Warranty\<close> becomes \<open>1 Year\<close>.  In a
  returned frame the warranty column holds these values.
\<close>

theorem warranty_mapping:
  "warranty_rule s = replace_each warranty_replacements (two_tokens s)
   \<and> replace_each [] x = x
   \<and> replace_each (kv # kvs) x = replace_each kvs (str_replace (fst kv) (snd kv) x)
   \<and> map fst warranty_replacements =
       [py ''1 Yr'', py ''1 Yera'', py ''1 Years '', py ''1 year'', py ''1 Years'',
        py ''One-year International'', py ''3 Years'', py ''2 Years'']
   \<and> (\<forall>kv\<in>set warranty_replacements.
         (snd kv = py ''1 Year'' \<or> snd kv = py ''2 Year'' \<or> snd kv = py ''3 Year'')
         \<and> warranty_rule (fst kv) = snd kv)
   \<and> ((\<forall>k\<in>set (map fst warranty_replacements). \<not> sublist k (two_tokens s))
        \<longrightarrow> warranty_rule s = two_tokens s)
   \<and> warranty_rule (py ''1 Yr Warranty'') = py ''1 Year''
   \<and> warranty_rule (py ''Lifetime Warranty Card'') = py ''Lifetime Warranty''
   \<and> (transform_data nd fl df = Inr out \<longrightarrow>
        (\<exists>ws. map_of df (py ''Warranty'') = Some (ObjectCol ws)
           \<and> map_of out (py ''Warranty'')
               = Some (ObjectCol (take 50 (map (map_option warranty_rule) ws)))))"
proof -
  have a: "replace_each [] x = x"
    by (simp add: replace_each_def)
  have b: "\<forall>kv\<in>set warranty_replacements.
         (snd kv = py ''1 Year'' \<or> snd kv = py ''2 Year'' \<or> snd kv = py ''3 Year'')
         \<and> warranty_rule (fst kv) = snd kv"
    using warranty_keys_map by (simp only: list_all_iff)
  have c: "(\<forall>k\<in>set (map fst warranty_replacements). \<not> sublist k (two_tokens s))
        \<longrightarrow> warranty_rule s = two_tokens s"
    using warranty_unchanged by blast
  have d: "transform_data nd fl df = Inr out \<longrightarrow>
        (\<exists>ws. map_of df (py ''Warranty'') = Some (ObjectCol ws)
           \<and> map_of out (py ''Warranty'')
               = Some (ObjectCol (take 50 (map (map_option warranty_rule) ws))))"
    using transform_data_cols [of nd fl df out] by blast
  show ?thesis
    using a b c d warranty_rule_def [of s] replace_each_Cons [of kv kvs x] warranty_keys
      warranty_examples(1,3)
    by (intro conjI)
qed

theorem warranty_mapping_witness:
  "transform_data (\<lambda>c. False) (\<lambda>s. None) (example_frame [py ''Unnamed: 0''] 200) = Inr (example_result 50)
   \<and> map_of (example_frame [py ''Unnamed: 0''] 200) (py ''Warranty'')
        = Some (ObjectCol (replicate 200 (Some (py ''1 Years Warranty''))))
   \<and> map_of (example_result 50) (py ''Warranty'')
        = Some (ObjectCol (take 50 (map (map_option warranty_rule)
             (replicate 200 (Some (py ''1 Years Warranty''))))))
   \<and> list_all (\<lambda>k. \<not> sublist k (two_tokens (py ''6 Months Onsite'')))
        (map fst warranty_replacements)
   \<and> warranty_rule (py ''6 Months Onsite'') = two_tokens (py ''6 Months Onsite'')
   \<and> (py ''3 Years'', py ''3 Year'') \<in> set warranty_replacements
   \<and> warranty_rule (py ''3 Years'') = py ''3 Year''"
proof -
  have h: "transform_data (\<lambda>c. False) (\<lambda>s. None) (example_frame [py ''Unnamed: 0''] 200)
      = Inr (example_result 50)"
    using example_any_rows [of "\<lambda>c. False" "\<lambda>s. None" 200] by simp
  have t: "map_of (example_frame [py ''Unnamed: 0''] 200) (py ''Warranty'')
        = Some (ObjectCol (replicate 200 (Some (py ''1 Years Warranty''))))"
    by (simp add: example_frame_def)
  have n0: "list_all (\<lambda>k. \<not> sublist k (two_tokens (py ''6 Months Onsite'')))
      (map fst warranty_replacements)"
    by code_simp
  then have n: "\<forall>k\<in>set (map fst warranty_replacements).
      \<not> sublist k (two_tokens (py ''6 Months Onsite''))"
    by (simp only: list_all_iff)
  have m: "(py ''3 Years'', py ''3 Year'') \<in> set warranty_replacements"
    by (simp add: warranty_replacements_def)
  note p = warranty_mapping [of "py ''6 Months Onsite''" "[]" "(py ''3 Years'', py ''3 Year'')"
      "[]" "\<lambda>c. False" "\<lambda>s. None" "example_frame [py ''Unnamed: 0''] 200"
      "example_result 50"]
  from p h t
  have "map_of (example_result 50) (py ''Warranty'')
        = Some (ObjectCol (take 50 (map (map_option warranty_rule)
             (replicate 200 (Some (py ''1 Years Warranty''))))))"
    by auto
  moreover from p n have "warranty_rule (py ''6 Months Onsite'') = two_tokens (py ''6 Months Onsite'')"
    by blast
  moreover from p m have "warranty_rule (py ''3 Years'') = py ''3 Year''"
    by fastforce
  ultimately show ?thesis
    using h t n0 m by blast
qed

section \<open>Rating correction\<close>

lemma rating_rule_unfold:
  "rating_rule s = str_replace (py ''57,499'') (py ''4.3'') (str_replace (py ''74,990'') (py ''4.3'') s)"
  by (simp add: rating_rule_def rating_replacements_def replace_each_def)

lemma rating_examples:
  "rating_rule (py ''74,990'') = py ''4.3''"
  "rating_rule (py ''57,499'') = py ''4.3''"
  "rating_rule (py ''4.5'') = py ''4.5''"
  "rating_rule (py ''45,990'') = py ''45,990''"
  "rating_rule (py ''not a rating'') = py ''not a rating''"
  "rating_rule (py ''1,74,990'') = py ''1,4.3''"
  by code_simp+

lemma rating_unchanged:
  assumes "\<not> sublist (py ''74,990'') s" and "\<not> sublist (py ''57,499'') s"
  shows "rating_rule s = s"
proof -
  have "str_replace (py ''74,990'') (py ''4.3'') s = s"
    by (rule str_replace_absent [OF _ assms(1)]) (simp add: py_def)
  moreover have "str_replace (py ''57,499'') (py ''4.3'') s = s"
    by (rule str_replace_absent [OF _ assms(2)]) (simp add: py_def)
  ultimately show ?thesis
    by (simp add: rating_rule_unfold)
qed

text \<open>
  C4, as the code has it.  The two entries are replaced as texts inside the rating value,
  not looked up as whole values: the rating \<open>1,74,990\<close> is neither of the two keys and
  is changed, to \<open>1,4.3\<close>.
\<close>

theorem rating_correction_counterexample:
  "py ''1,74,990'' \<notin> set (map fst rating_replacements)
   \<and> rating_rule (py ''1,74,990'') = py ''1,4.3''
   \<and> py ''1,4.3'' \<noteq> py ''1,74,990''"
proof -
  have "py ''1,74,990'' \<notin> set (map fst rating_replacements)"
    by (simp add: rating_replacements_def)
  then show ?thesis
    using rating_examples(6) by simp
qed

text \<open>
  C4, amended.  The rating statements replace every occurrence of \<open>74,990\<close> inside the
  value by \<open>4.3\<close>, then every occurrence of \<open>57,499\<close> by \<open>4.3\<close>, with these two entries
  only.  A rating value that holds neither text passes through unchanged, valid rating or
  not: \<open>4.5\<close> stays \<open>4.5\<close> and \<open>45,990\<close> is not changed.  In a returned frame the rating
  column holds these values, a missing cell staying missing.
\<close>

theorem rating_correction:
  "rating_replacements = [(py ''74,990'', py ''4.3''), (py ''57,499'', py ''4.3'')]
   \<and> rating_rule s =
       str_replace (py ''57,499'') (py ''4.3'') (str_replace (py ''74,990'') (py ''4.3'') s)
   \<and> (\<not> sublist (py ''74,990'') s \<and> \<not> sublist (py ''57,499'') s \<longrightarrow> rating_rule s = s)
   \<and> rating_rule (py ''74,990'') = py ''4.3''
   \<and> rating_rule (py ''57,499'') = py ''4.3''
   \<and> rating_rule (py ''4.5'') = py ''4.5''
   \<and> rating_rule (py ''45,990'') = py ''45,990''
   \<and> rating_rule (py ''not a rating'') = py ''not a rating''
   \<and> (transform_data nd fl df = Inr out \<longrightarrow>
        (\<exists>rts. map_of df (py ''Rating'') = Some (ObjectCol rts)
           \<and> map_of out (py ''Rating'')
               = Some (ObjectCol (take 50 (map (map_option rating_rule) rts)))))"
proof -
  have a: "\<not> sublist (py ''74,990'') s \<and> \<not> sublist (py ''57,499'') s \<longrightarrow> rating_rule s = s"
    using rating_unchanged by blast
  have b: "transform_data nd fl df = Inr out \<longrightarrow>
        (\<exists>rts. map_of df (py ''Rating'') = Some (ObjectCol rts)
           \<and> map_of out (py ''Rating'')
               = Some (ObjectCol (take 50 (map (map_option rating_rule) rts))))"
    using transform_data_cols [of nd fl df out] by blast
  show ?thesis
    using a b rating_replacements_def rating_rule_unfold [of s] rating_examples(1-5)
    by (intro conjI)
qed

theorem rating_correction_witness:
  "transform_data (\<lambda>c. False) (\<lambda>s. None) (example_frame [py ''Unnamed: 0''] 200) = Inr (example_result 50)
   \<and> map_of (example_frame [py ''Unnamed: 0''] 200) (py ''Rating'')
        = Some (ObjectCol (replicate 200 (Some (py ''45,990''))))
   \<and> map_of (example_result 50) (py ''Rating'')
        = Some (ObjectCol (take 50 (map (map_option rating_rule)
             (replicate 200 (Some (py ''45,990''))))))
   \<and> \<not> sublist (py ''74,990'') (py ''3.9'') \<and> \<not> sublist (py ''57,499'') (py ''3.9'')
   \<and> rating_rule (py ''3.9'') = py ''3.9''"
proof -
  have h: "transform_data (\<lambda>c. False) (\<lambda>s. None) (example_frame [py ''Unnamed: 0''] 200)
      = Inr (example_result 50)"
    using example_any_rows [of "\<lambda>c. False" "\<lambda>s. None" 200] by simp
  have t: "map_of (example_frame [py ''Unnamed: 0''] 200) (py ''Rating'')
        = Some (ObjectCol (replicate 200 (Some (py ''45,990''))))"
    by (simp add: example_frame_def)
  have n: "\<not> sublist (py ''74,990'') (py ''3.9'')" "\<not> sublist (py ''57,499'') (py ''3.9'')"
    by code_simp+
  note p = rating_correction [of "py ''3.9''" "\<lambda>c. False" "\<lambda>s. None"
      "example_frame [py ''Unnamed: 0''] 200" "example_result 50"]
  from p h t
  have "map_of (example_result 50) (py ''Rating'')
        = Some (ObjectCol (take 50 (map (map_option rating_rule)
             (replicate 200 (Some (py ''45,990''))))))"
    by auto
  moreover from p n have "rating_rule (py ''3.9'') = py ''3.9''"
    by blast
  ultimately show ?thesis
    using h t n by blast
qed

section \<open>Occurrences after a replacement\<close>

lemma apart_suffix_left:
  "apart x q \<Longrightarrow> suffix e x \<Longrightarrow> e \<noteq> [] \<Longrightarrow> \<not> prefix e q \<and> \<not> prefix q e"
  by (auto simp: apart_def list_all_iff in_set_suffixes)

lemma apart_suffix_right:
  "apart x q \<Longrightarrow> suffix e q \<Longrightarrow> e \<noteq> [] \<Longrightarrow> \<not> prefix e x \<and> \<not> prefix x e"
  by (auto simp: apart_def list_all_iff in_set_suffixes)

lemma prefix_of_replaced:
  assumes "old \<noteq> []"
  shows "prefix y (str_replace old new s) \<Longrightarrow>
     prefix y s \<or> (\<exists>u e. y = u @ e \<and> e \<noteq> [] \<and> prefix (u @ old) s \<and> (prefix e new \<or> prefix new e))"
  using assms
proof (induction old new s arbitrary: y rule: str_replace.induct)
  case (1 old new)
  then show ?case
    by simp
next
  case (2 old new c cs)
  show ?case
  proof (cases "y = []")
    case True
    then show ?thesis
      by simp
  next
    case yne: False
    show ?thesis
    proof (cases "prefix old (c # cs)")
      case True
      with 2 have "prefix y (new @ str_replace old new (drop (length old) (c # cs)))"
        by simp
      then have "prefix y new \<or> prefix new y"
        by (auto simp: prefix_append)
      with True yne have "y = [] @ y \<and> y \<noteq> [] \<and> prefix ([] @ old) (c # cs)
          \<and> (prefix y new \<or> prefix new y)"
        by simp
      then show ?thesis
        by blast
    next
      case False
      with 2 have p: "prefix y (c # str_replace old new cs)"
        by simp
      with yne obtain y' where y: "y = c # y'" and p': "prefix y' (str_replace old new cs)"
        by (cases y) auto
      from "2.IH"(3) [OF "2.prems"(2) False p' "2.prems"(2)]
      consider "prefix y' cs"
        | u e where "y' = u @ e" "e \<noteq> []" "prefix (u @ old) cs" "prefix e new \<or> prefix new e"
        by blast
      then show ?thesis
      proof cases
        case 1
        then show ?thesis
          using y by simp
      next
        case 2
        then have "y = (c # u) @ e \<and> e \<noteq> [] \<and> prefix ((c # u) @ old) (c # cs)
            \<and> (prefix e new \<or> prefix new e)"
          using y by simp
        then show ?thesis
          by blast
      qed
    qed
  qed
qed


lemma no_occurrence_after:
  assumes xne: "x \<noteq> []"
  shows "old \<noteq> [] \<Longrightarrow> apart x new \<Longrightarrow> x = old \<or> \<not> sublist x s
     \<Longrightarrow> \<not> sublist x (str_replace old new s)"
proof (induction old new s rule: str_replace.induct)
  case (1 old new)
  then show ?case
    using xne by simp
next
  case (2 old new c cs)
  note one = "2.prems"(1) and ap = "2.prems"(2) and dis = "2.prems"(3)
  show ?case
  proof (cases "prefix old (c # cs)")
    case True
    define rest where "rest = drop (length old) (c # cs)"
    define r where "r = str_replace old new rest"
    have res: "str_replace old new (c # cs) = new @ r"
      using True one by (simp add: r_def rest_def)
    have "suffix rest (c # cs)"
      unfolding rest_def by (rule suffix_drop)
    then have "sublist x rest \<Longrightarrow> sublist x (c # cs)"
      by (meson sublist_order.order_trans suffix_imp_sublist)
    with dis have "x = old \<or> \<not> sublist x rest"
      by blast
    from "2.IH"(2) [OF one True one ap this [unfolded rest_def]]
    have ih: "\<not> sublist x r"
      by (simp add: r_def rest_def)
    have "\<not> sublist x (new @ r)"
    proof
      assume "sublist x (new @ r)"
      then consider "sublist x new" | "sublist x r"
        | x1 x2 where "x = x1 @ x2" "suffix x1 new" "prefix x2 r"
        by (auto simp: sublist_append)
      then show False
      proof cases
        case 1
        then obtain e where e: "suffix e new" "prefix x e"
          by (auto simp: sublist_altdef')
        with xne have "e \<noteq> []"
          by auto
        with apart_suffix_right [OF ap e(1)] e(2) show False
          by blast
      next
        case 2
        with ih show False
          by blast
      next
        case 3
        show False
        proof (cases "x1 = []")
          case True
          with 3 have "prefix x r"
            by simp
          with ih show False
            by blast
        next
          case False
          have "prefix x1 x"
            using 3(1) by simp
          with apart_suffix_right [OF ap 3(2) False] show False
            by blast
        qed
      qed
    qed
    with res show ?thesis
      by simp
  next
    case False
    define r where "r = str_replace old new cs"
    have res: "str_replace old new (c # cs) = c # r"
      using False one by (simp add: r_def)
    have "sublist x cs \<Longrightarrow> sublist x (c # cs)"
      by (simp add: sublist_Cons_right)
    with dis have "x = old \<or> \<not> sublist x cs"
      by blast
    from "2.IH"(3) [OF one False one ap this]
    have ih: "\<not> sublist x r"
      by (simp add: r_def)
    have np: "\<not> prefix x (c # cs)"
      using dis False by auto
    have "\<not> prefix x (c # r)"
    proof
      assume p: "prefix x (c # r)"
      with xne obtain x' where x: "x = c # x'" and p': "prefix x' r"
        by (cases x) auto
      from prefix_of_replaced [OF one p' [unfolded r_def]]
      consider "prefix x' cs"
        | u e where "x' = u @ e" "e \<noteq> []" "prefix (u @ old) cs" "prefix e new \<or> prefix new e"
        by blast
      then show False
      proof cases
        case 1
        with x np show False
          by simp
      next
        case 2
        have "x = (c # u) @ e"
          using x 2(1) by simp
        then have "suffix e x"
          by (rule suffixI)
        with apart_suffix_left [OF ap _ 2(2)] 2(4) show False
          by blast
      qed
    qed
    with ih res show ?thesis
      by (simp add: sublist_Cons_right)
  qed
qed

lemma replaced_is_fixed:
  assumes "old \<noteq> []" and "apart old new"
  shows "str_replace old new (str_replace old new s) = str_replace old new s"
  by (rule str_replace_absent [OF assms(1)])
    (rule no_occurrence_after [OF assms(1) assms(1) assms(2)], simp)

section \<open>Ends and counts under a replacement\<close>

lemma str_replace_Nil_iff:
  "old \<noteq> [] \<Longrightarrow> new \<noteq> [] \<Longrightarrow> str_replace old new s = [] \<longleftrightarrow> s = []"
  by (cases s) simp_all

lemma str_replace_ends:
  "old \<noteq> [] \<Longrightarrow> new \<noteq> [] \<Longrightarrow> s \<noteq> [] \<Longrightarrow>
     (hd (str_replace old new s) = hd s \<or> hd (str_replace old new s) = hd new)
   \<and> (last (str_replace old new s) = last s \<or> last (str_replace old new s) = last new)"
proof (induction old new s rule: str_replace.induct)
  case (1 old new)
  then show ?case
    by simp
next
  case (2 old new c cs)
  note one = "2.prems"(1) and nne = "2.prems"(2)
  show ?case
  proof (cases "prefix old (c # cs)")
    case True
    define rest where "rest = drop (length old) (c # cs)"
    have res: "str_replace old new (c # cs) = new @ str_replace old new rest"
      using True one by (simp add: rest_def)
    have h: "hd (new @ str_replace old new rest) = hd new"
      using nne by simp
    have "last (new @ str_replace old new rest) = last (c # cs)
        \<or> last (new @ str_replace old new rest) = last new"
    proof (cases "rest = []")
      case True
      then show ?thesis
        using one by simp
    next
      case False
      then have "length old < length (c # cs)"
        by (simp add: rest_def)
      then have l: "last rest = last (c # cs)"
        unfolding rest_def by (rule last_drop)
      from "2.IH"(2) [OF one \<open>prefix old (c # cs)\<close> one nne False [unfolded rest_def]]
      have "last (str_replace old new rest) = last rest
          \<or> last (str_replace old new rest) = last new"
        by (simp add: rest_def)
      moreover have "str_replace old new rest \<noteq> []"
        using False by (simp add: str_replace_Nil_iff [OF one nne])
      ultimately show ?thesis
        using l by simp
    qed
    with h res show ?thesis
      by simp
  next
    case False
    have res: "str_replace old new (c # cs) = c # str_replace old new cs"
      using False one by simp
    have "last (c # str_replace old new cs) = last (c # cs)
        \<or> last (c # str_replace old new cs) = last new"
    proof (cases "cs = []")
      case True
      then show ?thesis
        using one by simp
    next
      case cne: False
      from "2.IH"(3) [OF one False one nne cne]
      have "last (str_replace old new cs) = last cs \<or> last (str_replace old new cs) = last new"
        by simp
      moreover have "str_replace old new cs \<noteq> []"
        using cne by (simp add: str_replace_Nil_iff [OF one nne])
      ultimately show ?thesis
        using cne by simp
    qed
    with res show ?thesis
      by simp
  qed
qed

lemma str_replace_count:
  "old \<noteq> [] \<Longrightarrow> length (filter p new) \<le> length (filter p old) \<Longrightarrow>
     length (filter p (str_replace old new s)) \<le> length (filter p s)"
proof (induction old new s rule: str_replace.induct)
  case (1 old new)
  then show ?case
    by simp
next
  case (2 old new c cs)
  note one = "2.prems"(1) and le = "2.prems"(2)
  show ?case
  proof (cases "prefix old (c # cs)")
    case True
    define rest where "rest = drop (length old) (c # cs)"
    from True have s: "c # cs = old @ rest"
      by (auto simp: prefix_def rest_def)
    have res: "str_replace old new (c # cs) = new @ str_replace old new rest"
      using True one by (simp add: rest_def)
    from "2.IH"(2) [OF one True one le]
    have "length (filter p (str_replace old new rest)) \<le> length (filter p rest)"
      by (simp add: rest_def)
    then have "length (filter p (new @ str_replace old new rest))
        \<le> length (filter p (old @ rest))"
      using le by simp
    then have "length (filter p (str_replace old new (c # cs)))
        \<le> length (filter p (old @ rest))"
      by (simp only: res)
    then show ?thesis
      by (simp only: s)
  next
    case False
    from "2.IH"(3) [OF one False one le] False one show ?thesis
      by simp
  qed
qed


section \<open>Running a rule on its own result\<close>

lemma apart_literals:
  "apart (py ''Intel Core 5 Processor'') (py ''Intel Core i5 Processor'')"
  "apart (py ''Intel Core 7 Processor'') (py ''Intel Core i7 Processor'')"
  "apart (py ''Intel Core 5 Processor'') (py ''Intel Core i7 Processor'')"
  "apart (py ''64 bit Windows 11 Home Operating System'') (py ''64 bit Windows 11 Operating System'')"
  "apart (py ''74,990'') (py ''4.3'')"
  "apart (py ''57,499'') (py ''4.3'')"
  by code_simp+

lemma literal_ends:
  "non_space (hd (py ''Intel Core i5 Processor''))" "non_space (last (py ''Intel Core i5 Processor''))"
  "non_space (hd (py ''Intel Core i7 Processor''))" "non_space (last (py ''Intel Core i7 Processor''))"
  by code_simp+

lemma os_rule_idem: "os_rule (os_rule s) = os_rule s"
  unfolding os_rule_def
  by (rule replaced_is_fixed [OF _ apart_literals(4)]) (simp add: py_def)

lemma rating_rule_idem: "rating_rule (rating_rule s) = rating_rule s"
proof -
  define k1 where "k1 = py ''74,990''"
  define k2 where "k2 = py ''57,499''"
  define v where "v = py ''4.3''"
  define w where "w = str_replace k2 v (str_replace k1 v s)"
  have ne: "k1 \<noteq> []" "k2 \<noteq> []"
    by (simp_all add: k1_def k2_def py_def)
  have ap: "apart k1 v" "apart k2 v"
    unfolding k1_def k2_def v_def by (rule apart_literals)+
  have a0: "\<not> sublist k1 (str_replace k1 v s)"
    by (rule no_occurrence_after [OF ne(1) ne(1) ap(1)]) simp
  have a: "\<not> sublist k1 w"
    unfolding w_def by (rule no_occurrence_after [OF ne(1) ne(2) ap(1)]) (simp add: a0)
  have b: "\<not> sublist k2 w"
    unfolding w_def by (rule no_occurrence_after [OF ne(2) ne(2) ap(2)]) simp
  have "str_replace k2 v (str_replace k1 v w) = w"
    by (simp add: str_replace_absent [OF ne(1) a] str_replace_absent [OF ne(2) b])
  then show ?thesis
    by (simp add: rating_rule_unfold w_def k1_def k2_def v_def)
qed

lemma processor_rule_idem: "processor_rule (processor_rule s) = processor_rule s"
proof -
  define p5 where "p5 = py ''Intel Core 5 Processor''"
  define q5 where "q5 = py ''Intel Core i5 Processor''"
  define p7 where "p7 = py ''Intel Core 7 Processor''"
  define q7 where "q7 = py ''Intel Core i7 Processor''"
  define t where "t = strip (before_paren s)"
  define u where "u = str_replace p5 q5 t"
  define w where "w = str_replace p7 q7 u"
  have pw: "processor_rule s = w"
    by (simp add: processor_rule_def w_def u_def t_def p5_def q5_def p7_def q7_def)
  have ne: "p5 \<noteq> []" "q5 \<noteq> []" "p7 \<noteq> []" "q7 \<noteq> []"
    by (simp_all add: p5_def q5_def p7_def q7_def py_def)
  have ap: "apart p5 q5" "apart p7 q7" "apart p5 q7"
    unfolding p5_def q5_def p7_def q7_def by (rule apart_literals)+
  have n5u: "\<not> sublist p5 u"
    unfolding u_def by (rule no_occurrence_after [OF ne(1) ne(1) ap(1)]) simp
  have n5: "\<not> sublist p5 w"
    unfolding w_def by (rule no_occurrence_after [OF ne(1) ne(3) ap(3)]) (simp add: n5u)
  have n7: "\<not> sublist p7 w"
    unfolding w_def by (rule no_occurrence_after [OF ne(3) ne(3) ap(2)]) simp
  have "40 \<notin> set w"
    unfolding pw [symmetric] by (rule no_paren_in_processor)
  then have bp: "before_paren w = w"
    by (auto simp: before_paren_def)
  have st: "strip w = w"
  proof (rule strip_fixed, cases "t = []")
    case True
    then have "w = []"
      using ne by (simp add: w_def u_def)
    then show "w = [] \<or> non_space (hd w) \<and> non_space (last w)"
      by simp
  next
    case False
    then have te: "non_space (hd t)" "non_space (last t)"
      using strip_ends [of "before_paren s"] by (simp_all add: t_def)
    have une: "u \<noteq> []"
      using False by (simp add: u_def str_replace_Nil_iff [OF ne(1) ne(2)])
    from str_replace_ends [OF ne(1) ne(2) False, of] te literal_ends(1,2)
    have ue: "non_space (hd u)" "non_space (last u)"
      unfolding u_def q5_def by auto
    from str_replace_ends [OF ne(3) ne(4) une] ue literal_ends(3,4)
    have "non_space (hd w)" "non_space (last w)"
      unfolding w_def q7_def by auto
    then show "w = [] \<or> non_space (hd w) \<and> non_space (last w)"
      by simp
  qed
  have "processor_rule w = str_replace p7 q7 (str_replace p5 q5 w)"
    by (simp add: processor_rule_def bp st p5_def q5_def p7_def q7_def)
  also have "\<dots> = w"
    by (simp add: str_replace_absent [OF ne(1) n5] str_replace_absent [OF ne(3) n7])
  finally show ?thesis
    by (simp only: pw)
qed

lemma price_text_idem: "price_text nd (price_text nd s) = price_text nd s"
  by (simp add: price_text_filter is_digit_def is_ascii_digit_def cong: conj_cong)

section \<open>The shape of a two-token text\<close>

lemma split_ws_Nil: "split_ws [] = []"
  by (subst split_ws.simps) simp

lemma two_tokens_has_shape: "two_token_text (two_tokens s)"
proof -
  have tok: "w \<noteq> [] \<and> list_all non_space w" if "w \<in> set (take 2 (split_ws s))" for w
    using that split_ws_tokens [of w s] by (meson in_set_takeD)
  have no32: "filter (\<lambda>c. c = 32) w = []" if "list_all non_space w" for w
    using that is_space_32 by (auto simp: filter_empty_conv list_all_iff non_space_def)
  have ends: "non_space (hd w) \<and> non_space (last w)" if "w \<noteq> []" "list_all non_space w" for w
    using that by (simp add: list_all_iff)
  consider "take 2 (split_ws s) = []" | a where "take 2 (split_ws s) = [a]"
    | a b where "take 2 (split_ws s) = [a, b]"
  proof (cases "split_ws s")
    case Nil
    then show ?thesis
      using that(1) by simp
  next
    case (Cons a r)
    then show ?thesis
      using that(2,3) by (cases r) (simp_all add: numeral_2_eq_2)
  qed
  then show ?thesis
  proof cases
    case 1
    then show ?thesis
      by (simp add: two_tokens_def two_token_text_def)
  next
    case 2
    with tok [of a] have a: "a \<noteq> []" "list_all non_space a"
      by simp_all
    from 2 have "two_tokens s = a"
      by (simp add: two_tokens_def)
    with a no32 [OF a(2)] ends [OF a] show ?thesis
      by (auto simp: two_token_text_def list_all_iff)
  next
    case 3
    with tok [of a] tok [of b] have a: "a \<noteq> []" "list_all non_space a"
      and b: "b \<noteq> []" "list_all non_space b"
      by simp_all
    from 3 have "two_tokens s = a @ 32 # b"
      by (simp add: two_tokens_def)
    with a b no32 [OF a(2)] no32 [OF b(2)] ends [OF a] ends [OF b] show ?thesis
      by (auto simp: two_token_text_def list_all_iff)
  qed
qed

lemma two_tokens_of_shape:
  assumes "two_token_text t"
  shows "two_tokens t = t"
proof (cases "32 \<in> set t")
  case False
  with assms have ns: "list_all non_space t"
    by (auto simp: two_token_text_def list_all_iff)
  show ?thesis
  proof (cases "t = []")
    case True
    then show ?thesis
      by (simp add: two_tokens_def split_ws_Nil)
  next
    case False
    then show ?thesis
      using ns by (simp add: two_tokens_def split_ws_token)
  qed
next
  case True
  then obtain a b where t: "t = a @ 32 # b"
    by (auto dest: split_list)
  from assms have c: "length (filter (\<lambda>c. c = 32) t) \<le> 1"
    and al: "list_all (\<lambda>c. non_space c \<or> c = 32) t"
    and e: "non_space (hd t)" "non_space (last t)"
    by (auto simp: two_token_text_def t)
  from c have "filter (\<lambda>c. c = 32) a = []" "filter (\<lambda>c. c = 32) b = []"
    by (simp_all add: t)
  then have "32 \<notin> set a" "32 \<notin> set b"
    by (auto simp: filter_empty_conv)
  with al have ns: "list_all non_space a" "list_all non_space b"
    by (auto simp: t list_all_iff)
  have ane: "a \<noteq> []"
    using e(1) is_space_32 by (auto simp: t non_space_def)
  have bne: "b \<noteq> []"
    using e(2) is_space_32 by (auto simp: t non_space_def)
  have "split_ws t = [a, b]"
    unfolding t by (simp add: split_ws_token_space [OF ane ns(1) is_space_32]
        split_ws_token [OF bne ns(2)])
  then show ?thesis
    by (simp add: two_tokens_def t)
qed

lemma str_replace_keeps_shape:
  assumes "two_token_text t" and "old \<noteq> []" and "new \<noteq> []"
    and "list_all (\<lambda>c. non_space c \<or> c = 32) new"
    and "length (filter (\<lambda>c. c = 32) new) \<le> length (filter (\<lambda>c. c = 32) old)"
    and "non_space (hd new)" and "non_space (last new)"
  shows "two_token_text (str_replace old new t)"
proof -
  have "set (str_replace old new t) \<subseteq> set t \<union> set new"
    by (rule set_str_replace [OF assms(2)])
  with assms(1,4) have a: "list_all (\<lambda>c. non_space c \<or> c = 32) (str_replace old new t)"
    by (auto simp: two_token_text_def list_all_iff)
  have "length (filter (\<lambda>c. c = 32) (str_replace old new t)) \<le> length (filter (\<lambda>c. c = 32) t)"
    by (rule str_replace_count [OF assms(2,5)])
  with assms(1) have b: "length (filter (\<lambda>c. c = 32) (str_replace old new t)) \<le> 1"
    by (simp add: two_token_text_def)
  have c: "str_replace old new t = []
      \<or> (non_space (hd (str_replace old new t)) \<and> non_space (last (str_replace old new t)))"
  proof (cases "t = []")
    case True
    then show ?thesis
      using assms(2) by simp
  next
    case False
    with assms(1) have "non_space (hd t)" "non_space (last t)"
      by (simp_all add: two_token_text_def)
    with str_replace_ends [OF assms(2,3) False] assms(6,7) show ?thesis
      by auto
  qed
  from a b c show ?thesis
    by (simp add: two_token_text_def)
qed

lemma replace_each_keeps_shape:
  "two_token_text t \<Longrightarrow>
   list_all (\<lambda>kv. fst kv \<noteq> [] \<and> snd kv \<noteq> []
       \<and> list_all (\<lambda>c. non_space c \<or> c = 32) (snd kv)
       \<and> length (filter (\<lambda>c. c = 32) (snd kv)) \<le> length (filter (\<lambda>c. c = 32) (fst kv))
       \<and> non_space (hd (snd kv)) \<and> non_space (last (snd kv))) kvs \<Longrightarrow>
   two_token_text (replace_each kvs t)"
proof (induction kvs arbitrary: t)
  case Nil
  then show ?case
    by (simp add: replace_each_def)
next
  case (Cons kv kvs)
  from Cons.prems have "two_token_text (str_replace (fst kv) (snd kv) t)"
    by (intro str_replace_keeps_shape) simp_all
  with Cons.IH Cons.prems(2) show ?case
    by (simp add: replace_each_Cons)
qed

lemma warranty_pairs_shape:
  "list_all (\<lambda>kv. fst kv \<noteq> [] \<and> snd kv \<noteq> []
       \<and> list_all (\<lambda>c. non_space c \<or> c = 32) (snd kv)
       \<and> length (filter (\<lambda>c. c = 32) (snd kv)) \<le> length (filter (\<lambda>c. c = 32) (fst kv))
       \<and> non_space (hd (snd kv)) \<and> non_space (last (snd kv))) warranty_replacements"
  by code_simp

lemma warranty_rule_shape: "two_tokens (warranty_rule s) = warranty_rule s"
  unfolding warranty_rule_def
  by (intro two_tokens_of_shape replace_each_keeps_shape two_tokens_has_shape
      warranty_pairs_shape)

lemma warranty_rule_idem_if:
  assumes "\<forall>k\<in>set (map fst warranty_replacements). \<not> sublist k (warranty_rule s)"
  shows "warranty_rule (warranty_rule s) = warranty_rule s"
proof -
  have "\<forall>k\<in>set (map fst warranty_replacements). \<not> sublist k (two_tokens (warranty_rule s))"
    using assms by (simp only: warranty_rule_shape)
  then have "warranty_rule (warranty_rule s) = two_tokens (warranty_rule s)"
    by (rule warranty_unchanged)
  then show ?thesis
    by (simp only: warranty_rule_shape)
qed

section \<open>Running the statements on the normalized frame\<close>

lemma map_option_idem:
  "(\<And>x. f (f x) = f x) \<Longrightarrow> map (map_option f \<circ> map_option f) xs = map (map_option f) xs"
  by (induction xs) (auto simp: option.map_comp comp_def)

lemma none_not_in_map: "None \<notin> set xs \<Longrightarrow> None \<notin> map_option f ` set xs"
  by (induction xs) auto

lemma rerun_on_normalized:
  assumes "transform_full nd fl df = Inr full"
  shows "drop_unnamed full = full
     \<and> transform_processor full = Inr full
     \<and> transform_ram full = Inr full
     \<and> transform_os full = Inr full
     \<and> transform_rating full = Inr full
     \<and> transform_prices nd fl full = Inl AttributeError"
proof -
  from transform_full_cols [OF assms] obtain ps rs os prs rts where
    c: "map_of full (py ''Processor'') = Some (ObjectCol (map (map_option processor_rule) ps))"
       "map_of full (py ''RAM'') = Some (ObjectCol (map (map_option two_tokens) rs))"
       "map_of full (py ''Operating_System'') = Some (ObjectCol (map (map_option os_rule) os))"
       "map_of full (py ''Prices'') = Some (price_column nd fl prs)"
       "map_of full (py ''Rating'') = Some (ObjectCol (map (map_option rating_rule) rts))"
    and n: "None \<notin> set rs"
    by blast
  have "\<not> sublist prefix_unnamed k" if "k \<in> set (map fst full)" for k
    using that fixed_names_kept(2)
    unfolding transform_full_names [OF assms]
    by (auto simp: AList.dom_update keys_drop_unnamed)
  then have a: "drop_unnamed full = full"
    unfolding drop_unnamed_filter by (auto simp: filter_id_conv)
  have b: "transform_processor full = Inr full"
    unfolding transform_processor_Inr
    using c(1) by (simp add: map_option_idem processor_rule_idem AList.update_triv)
  have r: "transform_ram full = Inr full"
    unfolding transform_ram_Inr
    using c(2) n by (simp add: map_option_idem two_tokens_idem AList.update_triv none_not_in_map)
  have o: "transform_os full = Inr full"
    unfolding transform_os_Inr
    using c(3) by (simp add: map_option_idem os_rule_idem AList.update_triv)
  have t: "transform_rating full = Inr full"
    unfolding transform_rating_Inr
    using c(5) by (simp add: map_option_idem rating_rule_idem AList.update_triv)
  have p: "transform_prices nd fl full = Inl AttributeError"
    using c(4) by (simp add: transform_prices_def str_update_def df_get_def
        str_accessor_price_column bind_err_def)
  from a b r o t p show ?thesis
    by blast
qed

lemma example_rerun_prices:
  "transform_prices (\<lambda>c. False) (\<lambda>s. None) (example_result 50) = Inl AttributeError"
  by (simp add: example_result_def transform_prices_def str_update_def df_get_def
      str_accessor_def bind_err_def)

lemma warranty_twice:
  "warranty_rule (py ''1 Yearss'') = py ''1 Years''"
  "warranty_rule (py ''1 Years'') = py ''1 Year''"
  by code_simp+

text \<open>
  C9, as the code has it.  Two rules are not a no-op on their own result.  The price
  statement leaves a numeric column, and run on it again raises at the string accessor:
  on the frame normalized from the example the result is \<open>AttributeError\<close>.  The warranty
  mapping run again can find a key that its first run made: \<open>1 Yearss\<close> gives
  \<open>1 Years\<close>, and \<open>1 Years\<close> gives \<open>1 Year\<close>.
\<close>

theorem rerun_counterexample:
  "transform_data (\<lambda>c. False) (\<lambda>s. None) (example_frame [py ''Unnamed: 0''] 200) = Inr (example_result 50)
   \<and> transform_prices (\<lambda>c. False) (\<lambda>s. None) (example_result 50) = Inl AttributeError
   \<and> warranty_rule (py ''1 Yearss'') = py ''1 Years''
   \<and> warranty_rule (warranty_rule (py ''1 Yearss'')) = py ''1 Year''
   \<and> py ''1 Year'' \<noteq> py ''1 Years''"
proof -
  have "transform_data (\<lambda>c. False) (\<lambda>s. None) (example_frame [py ''Unnamed: 0''] 200)
      = Inr (example_result 50)"
    using example_any_rows [of "\<lambda>c. False" "\<lambda>s. None" 200] by simp
  then show ?thesis
    using example_rerun_prices warranty_twice by simp
qed

text \<open>
  C9, amended.  Run on its own result, each of these is a no-op: the processor rule, the
  two-token rule of the RAM column, the operating-system rule, the rating rule, the
  two-token step of the warranty rule, and the character stripping of the price rule.
  The warranty mapping is a no-op on a result that holds none of its keys.  On the
  normalized frame (before the cut to 50 rows) the statements for the artifact columns,
  the processor, the RAM, the operating system and the rating change nothing, and the
  price statement raises, its column now holding numbers.
\<close>

theorem rerun_is_noop:
  "processor_rule (processor_rule s) = processor_rule s
   \<and> two_tokens (two_tokens s) = two_tokens s
   \<and> os_rule (os_rule s) = os_rule s
   \<and> rating_rule (rating_rule s) = rating_rule s
   \<and> price_text nd (price_text nd s) = price_text nd s
   \<and> two_tokens (warranty_rule s) = warranty_rule s
   \<and> ((\<forall>k\<in>set (map fst warranty_replacements). \<not> sublist k (warranty_rule s))
        \<longrightarrow> warranty_rule (warranty_rule s) = warranty_rule s)
   \<and> (transform_full nd fl df = Inr full \<longrightarrow>
        drop_unnamed full = full
        \<and> transform_processor full = Inr full
        \<and> transform_ram full = Inr full
        \<and> transform_os full = Inr full
        \<and> transform_rating full = Inr full
        \<and> transform_prices nd fl full = Inl AttributeError)"
proof -
  have a: "(\<forall>k\<in>set (map fst warranty_replacements). \<not> sublist k (warranty_rule s))
        \<longrightarrow> warranty_rule (warranty_rule s) = warranty_rule s"
    using warranty_rule_idem_if by blast
  have b: "transform_full nd fl df = Inr full \<longrightarrow>
        drop_unnamed full = full
        \<and> transform_processor full = Inr full
        \<and> transform_ram full = Inr full
        \<and> transform_os full = Inr full
        \<and> transform_rating full = Inr full
        \<and> transform_prices nd fl full = Inl AttributeError"
    using rerun_on_normalized by blast
  show ?thesis
    using a b processor_rule_idem [of s] two_tokens_idem [of s] os_rule_idem [of s]
      rating_rule_idem [of s] price_text_idem [of nd s] warranty_rule_shape [of s]
    by (intro conjI)
qed

theorem rerun_is_noop_witness:
  "transform_full (\<lambda>c. False) (\<lambda>s. None) (example_frame [py ''Unnamed: 0''] 200) = Inr (example_result 200)
   \<and> transform_processor (example_result 200) = Inr (example_result 200)
   \<and> transform_ram (example_result 200) = Inr (example_result 200)
   \<and> transform_os (example_result 200) = Inr (example_result 200)
   \<and> transform_rating (example_result 200) = Inr (example_result 200)
   \<and> transform_prices (\<lambda>c. False) (\<lambda>s. None) (example_result 200) = Inl AttributeError
   \<and> warranty_rule (py ''1 Yr Warranty'') = py ''1 Year''
   \<and> list_all (\<lambda>k. \<not> sublist k (warranty_rule (py ''1 Yr Warranty'')))
        (map fst warranty_replacements)
   \<and> warranty_rule (warranty_rule (py ''1 Yr Warranty'')) = warranty_rule (py ''1 Yr Warranty'')"
proof -
  have h: "transform_full (\<lambda>c. False) (\<lambda>s. None) (example_frame [py ''Unnamed: 0''] 200)
      = Inr (example_result 200)"
    using example_full [of "\<lambda>c. False" "\<lambda>s. None" 200] by simp
  have n0: "list_all (\<lambda>k. \<not> sublist k (warranty_rule (py ''1 Yr Warranty'')))
        (map fst warranty_replacements)"
    by code_simp
  then have n: "\<forall>k\<in>set (map fst warranty_replacements).
      \<not> sublist k (warranty_rule (py ''1 Yr Warranty''))"
    by (simp only: list_all_iff)
  note p = rerun_is_noop [of "py ''1 Yr Warranty''" "\<lambda>c. False" "\<lambda>s. None"
      "example_frame [py ''Unnamed: 0''] 200" "example_result 200"]
  from p h have "transform_processor (example_result 200) = Inr (example_result 200)
   \<and> transform_ram (example_result 200) = Inr (example_result 200)
   \<and> transform_os (example_result 200) = Inr (example_result 200)
   \<and> transform_rating (example_result 200) = Inr (example_result 200)
   \<and> transform_prices (\<lambda>c. False) (\<lambda>s. None) (example_result 200) = Inl AttributeError"
    by blast
  moreover from p n
  have "warranty_rule (warranty_rule (py ''1 Yr Warranty'')) = warranty_rule (py ''1 Yr Warranty'')"
    by blast
  ultimately show ?thesis
    using h n0 warranty_examples(1) by blast
qed

end
